theory Spec2Isabelle
  imports Main "HOL-Library.Word" "HOL-Library.Char_ord" "HOL-Library.List_Lexorder"
    "HOL-Library.AList"
begin

chapter \<open>Perpetua: token store, cipher, proxy forwarder, OAuth callback, refresh loop\<close>

text \<open>
  A shallow embedding of the TypeScript sources: \<^verbatim>\<open>crypto.ts\<close> (AES-256-GCM helpers),
  \<^verbatim>\<open>store/SQLiteStore.ts\<close>, \<^verbatim>\<open>proxy.ts\<close>, \<^verbatim>\<open>auth.ts\<close> and \<^verbatim>\<open>refresh.ts\<close>.
  The clock (\<^verbatim>\<open>Date.now()\<close>, \<^verbatim>\<open>unixepoch()\<close>), the random nonce, the provider registry and
  the outcome of every outbound \<^verbatim>\<open>fetch\<close> are explicit arguments; the database is an
  explicit value that every store operation takes and returns; a thrown exception is the
  \<open>Inl\<close> branch of a sum.
\<close>

section \<open>Errors\<close>

datatype error =
    ConfigError      \<comment> \<open>\<^verbatim>\<open>ENCRYPTION_KEY must be a 64-char hex string (32 bytes)\<close>\<close>
  | FormatError      \<comment> \<open>\<^verbatim>\<open>Invalid encrypted value format\<close>\<close>
  | CipherError      \<comment> \<open>anything thrown by the platform's cipher: bad key or nonce length,
                        bad tag length, failed authentication\<close>
  | ConstraintError  \<comment> \<open>SQLite constraint violation\<close>

section \<open>Strings and buffers of the platform\<close>

text \<open>
  A JavaScript string is a sequence of UTF-16 code units; a \<^verbatim>\<open>Buffer\<close> is a sequence of
  bytes. The cipher helpers look inside both, so they are modelled at that level. Strings
  that the program only compares (provider slugs, account names, header names, access
  tokens) are plain \<^typ>\<open>string\<close>s.
\<close>

type_synonym bytes = "8 word list"
type_synonym jsstring = "16 word list"

definition js :: "string \<Rightarrow> jsstring" where
  "js s = map of_char s"

text \<open>\<^verbatim>\<open>if (s)\<close> for a string that may be \<^verbatim>\<open>null\<close> or \<^verbatim>\<open>undefined\<close>: present and
  not empty. \<^verbatim>\<open>!s\<close> is its negation.\<close>

definition truthy :: "'a list option \<Rightarrow> bool" where
  "truthy s \<longleftrightarrow> s \<noteq> None \<and> s \<noteq> Some []"

subsection \<open>\<^verbatim>\<open>buf.toString('hex')\<close> and \<^verbatim>\<open>Buffer.from(s, 'hex')\<close>\<close>

definition hex_digit :: "nat \<Rightarrow> 16 word" where
  "hex_digit n = (if n < 10 then of_nat (48 + n) else of_nat (87 + n))"

definition toString_hex :: "bytes \<Rightarrow> jsstring" where
  "toString_hex bs = concat (map (\<lambda>b. [hex_digit (unat b div 16), hex_digit (unat b mod 16)]) bs)"

definition unhex :: "16 word \<Rightarrow> nat option" where
  "unhex c =
     (if 48 \<le> unat c \<and> unat c \<le> 57 then Some (unat c - 48)
      else if 97 \<le> unat c \<and> unat c \<le> 102 then Some (unat c - 87)
      else if 65 \<le> unat c \<and> unat c \<le> 70 then Some (unat c - 55)
      else None)"

text \<open>Decoding reads two characters at a time and stops at the first pair that is not
  two hex digits; a trailing single character is dropped.\<close>

fun from_hex :: "jsstring \<Rightarrow> bytes" where
  "from_hex (a # b # rest) =
     (case unhex a of
        None \<Rightarrow> []
      | Some x \<Rightarrow> (case unhex b of
                     None \<Rightarrow> []
                   | Some y \<Rightarrow> of_nat (16 * x + y) # from_hex rest))"
| "from_hex _ = []"

subsection \<open>UTF-8: \<^verbatim>\<open>cipher.update(s, 'utf8')\<close> and \<^verbatim>\<open>buf.toString('utf8')\<close>\<close>

definition is_high :: "16 word \<Rightarrow> bool" where
  "is_high u \<longleftrightarrow> 0xD800 \<le> unat u \<and> unat u \<le> 0xDBFF"

definition is_low :: "16 word \<Rightarrow> bool" where
  "is_low u \<longleftrightarrow> 0xDC00 \<le> unat u \<and> unat u \<le> 0xDFFF"

definition utf8_of_cp :: "nat \<Rightarrow> bytes" where
  "utf8_of_cp c =
     (if c < 0x80 then [of_nat c]
      else if c < 0x800 then [of_nat (0xC0 + c div 64), of_nat (0x80 + c mod 64)]
      else if c < 0x10000 then
        [of_nat (0xE0 + c div 4096), of_nat (0x80 + (c div 64) mod 64), of_nat (0x80 + c mod 64)]
      else
        [of_nat (0xF0 + c div 262144), of_nat (0x80 + (c div 4096) mod 64),
         of_nat (0x80 + (c div 64) mod 64), of_nat (0x80 + c mod 64)])"

text \<open>Encoding pairs a high surrogate with the low surrogate that follows it; a surrogate
  that is not part of such a pair is written as U+FFFD.\<close>

fun utf8_encode :: "jsstring \<Rightarrow> bytes" where
  "utf8_encode [] = []"
| "utf8_encode (u # us) =
     (if is_high u then
        (case us of
           [] \<Rightarrow> utf8_of_cp 0xFFFD
         | v # rest \<Rightarrow>
             if is_low v
             then utf8_of_cp (0x10000 + (unat u - 0xD800) * 0x400 + (unat v - 0xDC00))
                    @ utf8_encode rest
             else utf8_of_cp 0xFFFD @ utf8_encode us)
      else if is_low u then utf8_of_cp 0xFFFD @ utf8_encode us
      else utf8_of_cp (unat u) @ utf8_encode us)"

definition is_cont :: "8 word \<Rightarrow> bool" where
  "is_cont b \<longleftrightarrow> 0x80 \<le> unat b \<and> unat b \<le> 0xBF"

text \<open>The range allowed for the byte after a lead byte (overlong forms, surrogates and
  values above U+10FFFF are excluded here).\<close>

definition second_ok :: "nat \<Rightarrow> 8 word \<Rightarrow> bool" where
  "second_ok lead b \<longleftrightarrow>
     (if lead = 0xE0 then 0xA0 \<le> unat b \<and> unat b \<le> 0xBF
      else if lead = 0xED then 0x80 \<le> unat b \<and> unat b \<le> 0x9F
      else if lead = 0xF0 then 0x90 \<le> unat b \<and> unat b \<le> 0xBF
      else if lead = 0xF4 then 0x80 \<le> unat b \<and> unat b \<le> 0x8F
      else is_cont b)"

definition units_of_cp :: "nat \<Rightarrow> jsstring" where
  "units_of_cp c =
     (if c < 0x10000 then [of_nat c]
      else [of_nat (0xD800 + (c - 0x10000) div 0x400), of_nat (0xDC00 + (c - 0x10000) mod 0x400)])"

text \<open>Decoding never fails: every maximal ill-formed prefix becomes one U+FFFD and
  decoding resumes at the byte that broke the sequence.\<close>

fun utf8_decode :: "bytes \<Rightarrow> jsstring" where
  "utf8_decode [] = []"
| "utf8_decode (b # bs) =
     (if unat b < 0x80 then of_nat (unat b) # utf8_decode bs
      else if 0xC2 \<le> unat b \<and> unat b \<le> 0xDF then
        (case bs of
           [] \<Rightarrow> [0xFFFD]
         | c1 # r1 \<Rightarrow>
             if is_cont c1
             then of_nat ((unat b - 0xC0) * 64 + (unat c1 - 0x80)) # utf8_decode r1
             else 0xFFFD # utf8_decode bs)
      else if 0xE0 \<le> unat b \<and> unat b \<le> 0xEF then
        (case bs of
           [] \<Rightarrow> [0xFFFD]
         | c1 # r1 \<Rightarrow>
             if second_ok (unat b) c1 then
               (case r1 of
                  [] \<Rightarrow> [0xFFFD]
                | c2 # r2 \<Rightarrow>
                    if is_cont c2
                    then of_nat ((unat b - 0xE0) * 4096 + (unat c1 - 0x80) * 64 + (unat c2 - 0x80))
                           # utf8_decode r2
                    else 0xFFFD # utf8_decode r1)
             else 0xFFFD # utf8_decode bs)
      else if 0xF0 \<le> unat b \<and> unat b \<le> 0xF4 then
        (case bs of
           [] \<Rightarrow> [0xFFFD]
         | c1 # r1 \<Rightarrow>
             if second_ok (unat b) c1 then
               (case r1 of
                  [] \<Rightarrow> [0xFFFD]
                | c2 # r2 \<Rightarrow>
                    if is_cont c2 then
                      (case r2 of
                         [] \<Rightarrow> [0xFFFD]
                       | c3 # r3 \<Rightarrow>
                           if is_cont c3
                           then units_of_cp ((unat b - 0xF0) * 262144 + (unat c1 - 0x80) * 4096
                                             + (unat c2 - 0x80) * 64 + (unat c3 - 0x80))
                                  @ utf8_decode r3
                           else 0xFFFD # utf8_decode r2)
                    else 0xFFFD # utf8_decode r1)
             else 0xFFFD # utf8_decode bs)
      else 0xFFFD # utf8_decode bs)"

declare utf8_decode.simps(2) [simp del]

text \<open>A string is well formed when every surrogate is half of a pair: a high surrogate
  is followed by a low one, and a low one only occurs there.\<close>

fun well_formed :: "jsstring \<Rightarrow> bool" where
  "well_formed [] = True"
| "well_formed (u # us) =
     (if is_high u then (case us of [] \<Rightarrow> False | v # rest \<Rightarrow> is_low v \<and> well_formed rest)
      else \<not> is_low u \<and> well_formed us)"

subsection \<open>\<^verbatim>\<open>String.prototype.split\<close> and \<^verbatim>\<open>Buffer.prototype.subarray\<close>\<close>

fun split :: "'a \<Rightarrow> 'a list \<Rightarrow> 'a list list" where
  "split sep [] = [[]]"
| "split sep (c # cs) =
     (if c = sep then [] # split sep cs
      else (case split sep cs of [] \<Rightarrow> [[c]] | p # ps \<Rightarrow> (c # p) # ps))"

text \<open>A negative index counts from the end; both ends are clamped to the buffer.\<close>

definition clamp_index :: "int \<Rightarrow> nat \<Rightarrow> nat" where
  "clamp_index i n = (if i < 0 then nat (max (int n + i) 0) else min (nat i) n)"

definition subarray :: "'a list \<Rightarrow> int \<Rightarrow> int \<Rightarrow> 'a list" where
  "subarray xs s e = take (clamp_index e (length xs) - clamp_index s (length xs))
                          (drop (clamp_index s (length xs)) xs)"

section \<open>crypto.ts\<close>

text \<open>
  The process-wide inputs of the helpers: the \<^verbatim>\<open>ENCRYPTION_KEY\<close> environment variable and
  the platform's AES-256-GCM. \<open>gcm_seal key iv plaintext\<close> stands for
  \<^verbatim>\<open>createCipheriv\<close>, \<^verbatim>\<open>update\<close>, \<^verbatim>\<open>final\<close>, \<^verbatim>\<open>getAuthTag\<close> and returns the ciphertext and
  the tag; \<open>gcm_open key iv ciphertext tag\<close> stands for \<^verbatim>\<open>createDecipheriv\<close>,
  \<^verbatim>\<open>setAuthTag\<close>, \<^verbatim>\<open>update\<close>, \<^verbatim>\<open>final\<close>. \<open>None\<close> is a throw.
\<close>

record crypto_ctx =
  ENCRYPTION_KEY :: "jsstring option"
  gcm_seal :: "bytes \<Rightarrow> bytes \<Rightarrow> bytes \<Rightarrow> (bytes \<times> bytes) option"
  gcm_open :: "bytes \<Rightarrow> bytes \<Rightarrow> bytes \<Rightarrow> bytes \<Rightarrow> bytes option"

definition IV_BYTES :: nat where "IV_BYTES = 12"
definition TAG_BYTES :: nat where "TAG_BYTES = 16"

definition getKey :: "crypto_ctx \<Rightarrow> error + bytes" where
  "getKey K =
     (case ENCRYPTION_KEY K of
        None \<Rightarrow> Inl ConfigError
      | Some hex \<Rightarrow> if hex = [] \<or> length hex \<noteq> 64 then Inl ConfigError else Inr (from_hex hex))"

text \<open>\<open>iv\<close> is the value of \<^verbatim>\<open>randomBytes(IV_BYTES)\<close>.\<close>

definition encrypt :: "crypto_ctx \<Rightarrow> bytes \<Rightarrow> jsstring \<Rightarrow> error + jsstring" where
  "encrypt K iv plaintext =
     (case getKey K of
        Inl e \<Rightarrow> Inl e
      | Inr key \<Rightarrow>
          (case gcm_seal K key iv (utf8_encode plaintext) of
             None \<Rightarrow> Inl CipherError
           | Some (ct, tag) \<Rightarrow> Inr (toString_hex iv @ js '':'' @ toString_hex (ct @ tag))))"

definition nth_opt :: "'a list \<Rightarrow> nat \<Rightarrow> 'a option" where
  "nth_opt xs i = (if i < length xs then Some (xs ! i) else None)"

definition decrypt :: "crypto_ctx \<Rightarrow> jsstring \<Rightarrow> error + jsstring" where
  "decrypt K stored =
     (case getKey K of
        Inl e \<Rightarrow> Inl e
      | Inr key \<Rightarrow>
          (let parts = split (of_char CHR '':'') stored;
               ivHex = nth_opt parts 0;
               dataHex = nth_opt parts 1
           in if \<not> truthy ivHex \<or> \<not> truthy dataHex then Inl FormatError
              else
                (let iv = from_hex (the ivHex);
                     data = from_hex (the dataHex);
                     tag = subarray data (int (length data) - int TAG_BYTES) (int (length data));
                     ciphertext = subarray data 0 (int (length data) - int TAG_BYTES)
                 in case gcm_open K key iv ciphertext tag of
                      None \<Rightarrow> Inl CipherError
                    | Some pt \<Rightarrow> Inr (utf8_decode pt))))"

section \<open>store/SQLiteStore.ts\<close>

text \<open>The two tables. \<open>connections\<close> has \<^verbatim>\<open>id TEXT PRIMARY KEY\<close> and
  \<^verbatim>\<open>UNIQUE(provider, account)\<close>; \<open>oauth_states\<close> has \<^verbatim>\<open>state TEXT PRIMARY KEY\<close>.\<close>

record conn_row =
  row_id :: string
  row_provider :: string
  row_account :: string
  refresh_token_encrypted :: jsstring
  access_token :: "string option"
  expires_at :: "int option"
  row_scopes :: "string option"
  created_at :: int
  updated_at :: int

record state_row =
  state :: string
  state_provider :: string
  state_account :: string
  state_created_at :: int

record db =
  connections :: "conn_row list"
  oauth_states :: "state_row list"

text \<open>\<^verbatim>\<open>StoredToken\<close> of \<^verbatim>\<open>store/ITokenStore.ts\<close>.\<close>

record stored_token =
  provider :: string
  account :: string
  refreshToken :: jsstring
  accessToken :: "string option"
  expiresAt :: "int option"
  scopes :: "string option"
  createdAt :: int
  updatedAt :: int

text \<open>\<^verbatim>\<open>rowToRecord\<close> decrypts the refresh token, so reading a row can throw. (The
  source's intermediate \<^verbatim>\<open>TokenRecord\<close> also carries \<^verbatim>\<open>id\<close>, which every caller drops.)\<close>

definition rowToRecord :: "crypto_ctx \<Rightarrow> conn_row \<Rightarrow> error + stored_token" where
  "rowToRecord K row =
     (case decrypt K (refresh_token_encrypted row) of
        Inl e \<Rightarrow> Inl e
      | Inr rt \<Rightarrow>
          Inr \<lparr>provider = row_provider row, account = row_account row, refreshToken = rt,
               accessToken = access_token row, expiresAt = expires_at row,
               scopes = row_scopes row, createdAt = created_at row,
               updatedAt = updated_at row\<rparr>)"

text \<open>What \<^verbatim>\<open>getToken\<close> and \<^verbatim>\<open>getDefaultToken\<close> return for a row they selected.\<close>

definition stored_of_row :: "crypto_ctx \<Rightarrow> conn_row \<Rightarrow> error + stored_token option" where
  "stored_of_row K row = (case rowToRecord K row of Inl e \<Rightarrow> Inl e | Inr t \<Rightarrow> Inr (Some t))"

text \<open>\<open>now\<close> is \<^verbatim>\<open>unixepoch()\<close>, \<open>iv\<close> the nonce drawn by \<^verbatim>\<open>encrypt\<close>. The upsert
  updates the row with the same \<open>(provider, account)\<close>; without one it inserts, which
  the primary key on \<open>id\<close> can still reject.\<close>

definition storeToken ::
  "crypto_ctx \<Rightarrow> int \<Rightarrow> bytes \<Rightarrow> db \<Rightarrow> string \<Rightarrow> string \<Rightarrow> jsstring \<Rightarrow> string option \<Rightarrow>
   int option \<Rightarrow> string option \<Rightarrow> error + db" where
  "storeToken K now iv d p a rt at ea sc =
     (case encrypt K iv rt of
        Inl e \<Rightarrow> Inl e
      | Inr encryptedRefresh \<Rightarrow>
          if \<exists>r \<in> set (connections d). row_provider r = p \<and> row_account r = a then
            Inr (d\<lparr>connections :=
                     map (\<lambda>r. if row_provider r = p \<and> row_account r = a
                               then r\<lparr>refresh_token_encrypted := encryptedRefresh,
                                      access_token := at, expires_at := ea, row_scopes := sc,
                                      updated_at := now\<rparr>
                               else r)
                         (connections d)\<rparr>)
          else if \<exists>r \<in> set (connections d). row_id r = p @ '':'' @ a then Inl ConstraintError
          else
            Inr (d\<lparr>connections :=
                     connections d @
                     [\<lparr>row_id = p @ '':'' @ a, row_provider = p, row_account = a,
                       refresh_token_encrypted = encryptedRefresh, access_token = at,
                       expires_at = ea, row_scopes = sc, created_at = now,
                       updated_at = now\<rparr>]\<rparr>))"

definition getToken :: "crypto_ctx \<Rightarrow> db \<Rightarrow> string \<Rightarrow> string \<Rightarrow> error + stored_token option" where
  "getToken K d p a =
     (case find (\<lambda>r. row_provider r = p \<and> row_account r = a) (connections d) of
        None \<Rightarrow> Inr None
      | Some row \<Rightarrow> stored_of_row K row)"

definition getDefaultToken :: "crypto_ctx \<Rightarrow> db \<Rightarrow> string \<Rightarrow> error + stored_token option" where
  "getDefaultToken K d p =
     (case sort_key row_account (filter (\<lambda>r. row_provider r = p) (connections d)) of
        [] \<Rightarrow> Inr None
      | [row] \<Rightarrow> stored_of_row K row
      | row # row' # rows \<Rightarrow>
          (case find (\<lambda>r. row_account r = ''default'') (row # row' # rows) of
             None \<Rightarrow> Inr None
           | Some defaultRow \<Rightarrow> stored_of_row K defaultRow))"

definition updateAccessToken :: "int \<Rightarrow> db \<Rightarrow> string \<Rightarrow> string \<Rightarrow> string \<Rightarrow> int \<Rightarrow> db" where
  "updateAccessToken now d p a at ea =
     d\<lparr>connections :=
         map (\<lambda>r. if row_provider r = p \<and> row_account r = a
                   then r\<lparr>access_token := Some at, expires_at := Some ea, updated_at := now\<rparr>
                   else r)
             (connections d)\<rparr>"

definition deleteToken :: "db \<Rightarrow> string \<Rightarrow> string \<Rightarrow> db" where
  "deleteToken d p a =
     d\<lparr>connections := filter (\<lambda>r. \<not> (row_provider r = p \<and> row_account r = a)) (connections d)\<rparr>"

text \<open>\<^verbatim>\<open>rows.map(rowToRecord)\<close>: the first row that fails to decrypt aborts the call.\<close>

fun map_rows :: "('a \<Rightarrow> error + 'b) \<Rightarrow> 'a list \<Rightarrow> error + 'b list" where
  "map_rows f [] = Inr []"
| "map_rows f (x # xs) =
     (case f x of
        Inl e \<Rightarrow> Inl e
      | Inr y \<Rightarrow> (case map_rows f xs of Inl e \<Rightarrow> Inl e | Inr ys \<Rightarrow> Inr (y # ys)))"

definition getTokensNeedingRefresh :: "crypto_ctx \<Rightarrow> int \<Rightarrow> db \<Rightarrow> int \<Rightarrow> error + stored_token list" where
  "getTokensNeedingRefresh K now d thresholdSec =
     map_rows (rowToRecord K)
       (filter (\<lambda>r. case expires_at r of None \<Rightarrow> True | Some e \<Rightarrow> e < now + thresholdSec)
               (connections d))"

definition saveOAuthState :: "int \<Rightarrow> db \<Rightarrow> string \<Rightarrow> string \<Rightarrow> string \<Rightarrow> db" where
  "saveOAuthState now d s p a =
     d\<lparr>oauth_states :=
         filter (\<lambda>r. state r \<noteq> s) (oauth_states d) @
         [\<lparr>state = s, state_provider = p, state_account = a, state_created_at = now\<rparr>]\<rparr>"

text \<open>Returns the binding \<open>(provider, account)\<close> and the database without the row.\<close>

definition consumeOAuthState :: "db \<Rightarrow> string \<Rightarrow> (string \<times> string) option \<times> db" where
  "consumeOAuthState d s =
     (case find (\<lambda>r. state r = s) (oauth_states d) of
        None \<Rightarrow> (None, d)
      | Some row \<Rightarrow>
          (Some (state_provider row, state_account row),
           d\<lparr>oauth_states := filter (\<lambda>r. state r \<noteq> s) (oauth_states d)\<rparr>))"

definition cleanOAuthStates :: "int \<Rightarrow> db \<Rightarrow> db" where
  "cleanOAuthStates now d =
     d\<lparr>oauth_states := filter (\<lambda>r. \<not> state_created_at r < now - 600) (oauth_states d)\<rparr>"

text \<open>The \<^verbatim>\<open>UNIQUE(provider, account)\<close> constraint, and the rows of one provider.\<close>

definition unique_keys :: "db \<Rightarrow> bool" where
  "unique_keys d \<longleftrightarrow> distinct (map (\<lambda>r. (row_provider r, row_account r)) (connections d))"

definition rows_of :: "db \<Rightarrow> string \<Rightarrow> conn_row list" where
  "rows_of d p = filter (\<lambda>r. row_provider r = p) (connections d)"

section \<open>providers.ts and the outside world\<close>

record provider_cfg =
  display_name :: string
  base_url :: string
  auth_url :: string
  token_url :: string
  client_id :: string
  client_secret :: string
  cfg_scopes :: "string list"

text \<open>\<^verbatim>\<open>getProvider\<close> is a lookup in the registry loaded at start-up.\<close>

type_synonym registry = "string \<Rightarrow> provider_cfg option"

text \<open>The form-encoded POSTs to a provider's token endpoint, and what comes back. The
  body of a 2xx answer is typed by the source as
  \<^verbatim>\<open>{access_token: string; expires_in?: number; refresh_token?: string; scope?: string}\<close>;
  \<open>None\<close> is a body that \<^verbatim>\<open>res.json()\<close> rejects.\<close>

datatype token_request =
    RefreshGrant string jsstring string string
      \<comment> \<open>token url, \<^verbatim>\<open>refresh_token\<close>, \<^verbatim>\<open>client_id\<close>, \<^verbatim>\<open>client_secret\<close>\<close>
  | CodeGrant string string string string string
      \<comment> \<open>token url, \<^verbatim>\<open>code\<close>, \<^verbatim>\<open>client_id\<close>, \<^verbatim>\<open>client_secret\<close>, \<^verbatim>\<open>redirect_uri\<close>\<close>

record token_json =
  json_access_token :: string
  json_expires_in :: "int option"
  json_refresh_token :: "jsstring option"
  json_scope :: "string option"

datatype token_response =
    NetworkError
  | HttpResponse nat "token_json option"

definition ok :: "nat \<Rightarrow> bool" where
  "ok status \<longleftrightarrow> 200 \<le> status \<and> status \<le> 299"

datatype header_value = HString string | HArray "string list" | HUndefined

datatype query_value = QString string | QArray "string list" | QUndefined

datatype body = BUndefined | BString string | BObject string
  \<comment> \<open>\<open>BObject j\<close>: a parsed body whose \<^verbatim>\<open>JSON.stringify\<close> is \<open>j\<close>\<close>

text \<open>The upstream URL is kept in two parts: \<^verbatim>\<open>base_url + "/" + wildcardPath\<close> and the
  entries of the \<^verbatim>\<open>URLSearchParams\<close> that make its query string.\<close>

record upstream_request =
  up_url :: string
  up_query :: "(string \<times> string) list"
  up_method :: string
  up_headers :: "(string \<times> string) list"
  up_body :: "string option"

text \<open>What the upstream \<^verbatim>\<open>fetch\<close> gives: a network failure, or a status, the response
  headers and the body text (reading the body is taken to succeed).\<close>

datatype upstream_response =
    UpstreamUnreachable
  | UpstreamResponse nat "(string \<times> string) list" string

datatype outcall = TokenCall token_request | UpstreamCall upstream_request

text \<open>Everything a handler reads from outside during one request: three clock readings
  (the handler's \<^verbatim>\<open>Date.now()\<close>, the one taken when the token answer is parsed, SQLite's
  \<^verbatim>\<open>unixepoch()\<close>), the nonce of \<^verbatim>\<open>encrypt\<close>, the resolved \<^verbatim>\<open>BASE_URL\<close> and the behaviour of
  the two remote parties.\<close>

record world =
  now_handler :: int
  now_parsed :: int
  now_store :: int
  nonce :: bytes
  BASE_URL :: string
  token_endpoint :: "token_request \<Rightarrow> token_response"
  upstream :: "upstream_request \<Rightarrow> upstream_response"

datatype reply =
    JsonError nat string             \<comment> \<open>status code and the \<^verbatim>\<open>error\<close> field\<close>
  | HtmlError nat string             \<comment> \<open>status code and the message of \<^verbatim>\<open>errorHtml\<close>\<close>
  | HtmlSuccess string string        \<comment> \<open>\<^verbatim>\<open>successHtml(provider, account)\<close>\<close>
  | Proxied nat "(string \<times> string) list" string

section \<open>proxy.ts\<close>

text \<open>\<open>None\<close> is a throw: the fetch failed, the status is not 2xx, or the body is not
  JSON.\<close>

definition refreshAccessToken :: "world \<Rightarrow> token_request \<Rightarrow> (string \<times> int) option" where
  "refreshAccessToken W rq =
     (case token_endpoint W rq of
        NetworkError \<Rightarrow> None
      | HttpResponse status body \<Rightarrow>
          if \<not> ok status then None
          else (case body of
                  None \<Rightarrow> None
                | Some data \<Rightarrow>
                    Some (json_access_token data,
                          now_parsed W + (case json_expires_in data of None \<Rightarrow> 3600 | Some n \<Rightarrow> n))))"

fun stripQueryParams :: "(string \<times> query_value) list \<Rightarrow> string list \<Rightarrow> (string \<times> string) list" where
  "stripQueryParams [] keys = []"
| "stripQueryParams ((k, v) # q) keys =
     (if k \<in> set keys then stripQueryParams q keys
      else (case v of
              QArray vals \<Rightarrow> map (\<lambda>val. (k, val)) vals @ stripQueryParams q keys
            | QString val \<Rightarrow> (k, val) # stripQueryParams q keys
            | QUndefined \<Rightarrow> stripQueryParams q keys))"

definition HOP_BY_HOP_HEADERS :: "string set" where
  "HOP_BY_HOP_HEADERS =
     {''connection'', ''keep-alive'', ''proxy-authenticate'', ''proxy-authorization'', ''te'',
      ''trailers'', ''transfer-encoding'', ''upgrade'', ''host'', ''authorization''}"

definition SKIP_RESPONSE_HEADERS :: "string set" where
  "SKIP_RESPONSE_HEADERS = {''connection'', ''keep-alive'', ''transfer-encoding'', ''content-encoding''}"

text \<open>\<^verbatim>\<open>toLowerCase\<close> and \<^verbatim>\<open>toUpperCase\<close> on the characters a \<^typ>\<open>string\<close> holds
  (code points below 256). Upper-casing is given for ASCII only: the three Latin-1
  characters whose upper case lies outside that range or is two letters never produce a
  method name.\<close>

definition lower_char :: "char \<Rightarrow> char" where
  "lower_char c =
     (if (65 \<le> (of_char c :: nat) \<and> (of_char c :: nat) \<le> 90)
         \<or> (192 \<le> (of_char c :: nat) \<and> (of_char c :: nat) \<le> 222 \<and> (of_char c :: nat) \<noteq> 215)
      then char_of ((of_char c :: nat) + 32) else c)"

definition toLowerCase :: "string \<Rightarrow> string" where
  "toLowerCase s = map lower_char s"

definition upper_char :: "char \<Rightarrow> char" where
  "upper_char c =
     (if 97 \<le> (of_char c :: nat) \<and> (of_char c :: nat) \<le> 122
      then char_of ((of_char c :: nat) - 32) else c)"

definition toUpperCase :: "string \<Rightarrow> string" where
  "toUpperCase s = map upper_char s"

fun join :: "string \<Rightarrow> string list \<Rightarrow> string" where
  "join sep [] = []"
| "join sep [x] = x"
| "join sep (x # y # ys) = x @ sep @ join sep (y # ys)"

record proxy_request =
  param_provider :: string
  param_wildcard :: string
  query_account :: "string option"
  query_rest :: "(string \<times> query_value) list"
  req_method :: string
  req_headers :: "(string \<times> header_value) list"
  req_body :: body

text \<open>\<^verbatim>\<open>request.query\<close>: the \<^verbatim>\<open>account\<close> entry, typed \<^verbatim>\<open>string | undefined\<close> by
  \<^verbatim>\<open>ProxyQuery\<close>, with the other entries.\<close>

definition request_query :: "proxy_request \<Rightarrow> (string \<times> query_value) list" where
  "request_query rq =
     (case query_account rq of None \<Rightarrow> [] | Some a \<Rightarrow> [(''account'', QString a)]) @ query_rest rq"

text \<open>Step 2 of the handler: the token record and the account name it is filed under.\<close>

definition loadToken ::
  "crypto_ctx \<Rightarrow> db \<Rightarrow> string \<Rightarrow> string option \<Rightarrow> error + (stored_token option \<times> string)" where
  "loadToken K d p accountParam =
     (if truthy accountParam then
        (case getToken K d p (the accountParam) of
           Inl e \<Rightarrow> Inl e
         | Inr tokenRecord \<Rightarrow> Inr (tokenRecord, the accountParam))
      else
        (case getToken K d p ''default'' of
           Inl e \<Rightarrow> Inl e
         | Inr (Some defaultNamed) \<Rightarrow> Inr (Some defaultNamed, ''default'')
         | Inr None \<Rightarrow>
             (case getDefaultToken K d p of
                Inl e \<Rightarrow> Inl e
              | Inr tokenRecord \<Rightarrow>
                  Inr (tokenRecord, case tokenRecord of None \<Rightarrow> [] | Some t \<Rightarrow> account t))))"

text \<open>Step 3: \<^verbatim>\<open>!tokenRecord.accessToken || (expiresAt !== null && expiresAt - nowSec < 300)\<close>.
  \<^verbatim>\<open>!s\<close> holds for \<^verbatim>\<open>null\<close> and for the empty string.\<close>

definition shouldRefresh :: "stored_token \<Rightarrow> int \<Rightarrow> bool" where
  "shouldRefresh tokenRecord nowSec \<longleftrightarrow>
     \<not> truthy (accessToken tokenRecord)
     \<or> (case expiresAt tokenRecord of None \<Rightarrow> False | Some e \<Rightarrow> e - nowSec < 300)"

text \<open>Step 5: the loop over \<^verbatim>\<open>Object.entries(request.headers)\<close>, then the assignment of
  \<^verbatim>\<open>authorization\<close>. A template literal prints \<^verbatim>\<open>null\<close> as \<^verbatim>\<open>null\<close>.\<close>

fun copyHeaders :: "(string \<times> header_value) list \<Rightarrow> (string \<times> string) list \<Rightarrow> (string \<times> string) list" where
  "copyHeaders [] fh = fh"
| "copyHeaders ((k, v) # es) fh =
     (if toLowerCase k \<in> HOP_BY_HOP_HEADERS then copyHeaders es fh
      else (case v of
              HString s \<Rightarrow> copyHeaders es (AList.update k s fh)
            | HArray vs \<Rightarrow> copyHeaders es (AList.update k (join '', '' vs) fh)
            | HUndefined \<Rightarrow> copyHeaders es fh))"

definition forwardHeaders :: "(string \<times> header_value) list \<Rightarrow> stored_token \<Rightarrow> (string \<times> string) list" where
  "forwardHeaders hs tokenRecord =
     AList.update ''authorization''
       (''Bearer '' @ (case accessToken tokenRecord of None \<Rightarrow> ''null'' | Some a \<Rightarrow> a))
       (copyHeaders hs [])"

text \<open>Steps 4 to 6: the one request sent upstream.\<close>

definition upstreamRequest :: "provider_cfg \<Rightarrow> proxy_request \<Rightarrow> stored_token \<Rightarrow> upstream_request" where
  "upstreamRequest cfg rq tokenRecord =
     \<lparr>up_url = base_url cfg @ ''/'' @ param_wildcard rq,
      up_query = stripQueryParams (request_query rq) [''account''],
      up_method = req_method rq,
      up_headers = forwardHeaders (req_headers rq) tokenRecord,
      up_body =
        (if toUpperCase (req_method rq) \<in> {''POST'', ''PUT'', ''PATCH''} then
           (case req_body rq of
              BUndefined \<Rightarrow> None
            | BString s \<Rightarrow> if s = [] then None else Some s
            | BObject j \<Rightarrow> Some j)
         else None)\<rparr>"

text \<open>Steps 7 and 8.\<close>

definition forward :: "world \<Rightarrow> upstream_request \<Rightarrow> reply" where
  "forward W u =
     (case upstream W u of
        UpstreamUnreachable \<Rightarrow> JsonError 502 ''UpstreamError''
      | UpstreamResponse status hs text \<Rightarrow>
          Proxied status (filter (\<lambda>(k, v). toLowerCase k \<notin> SKIP_RESPONSE_HEADERS) hs) text)"

text \<open>The handler of \<^verbatim>\<open>/proxy/:provider/*\<close>, after the \<^verbatim>\<open>requireApiKey\<close> pre-handler. It
  returns the reply (or the exception that escapes), the database, and the outbound calls
  in the order they were made.\<close>

definition proxyHandler ::
  "crypto_ctx \<Rightarrow> registry \<Rightarrow> world \<Rightarrow> db \<Rightarrow> proxy_request \<Rightarrow> (error + reply) \<times> db \<times> outcall list" where
  "proxyHandler K reg W d rq =
     (case reg (param_provider rq) of
        None \<Rightarrow> (Inr (JsonError 404 ''UnknownProvider''), d, [])
      | Some providerCfg \<Rightarrow>
          (case loadToken K d (param_provider rq) (query_account rq) of
             Inl e \<Rightarrow> (Inl e, d, [])
           | Inr (None, acct) \<Rightarrow> (Inr (JsonError 404 ''NoConnection''), d, [])
           | Inr (Some tokenRecord, acct) \<Rightarrow>
               if shouldRefresh tokenRecord (now_handler W) then
                 (let call = RefreshGrant (token_url providerCfg) (refreshToken tokenRecord)
                               (client_id providerCfg) (client_secret providerCfg)
                  in case refreshAccessToken W call of
                       None \<Rightarrow> (Inr (JsonError 401 ''TokenRefreshFailed''), d, [TokenCall call])
                     | Some (at, ea) \<Rightarrow>
                         (let u = upstreamRequest providerCfg rq
                                    (tokenRecord\<lparr>accessToken := Some at, expiresAt := Some ea\<rparr>)
                          in (Inr (forward W u),
                              updateAccessToken (now_store W) d (param_provider rq) acct at ea,
                              [TokenCall call, UpstreamCall u])))
               else
                 (let u = upstreamRequest providerCfg rq tokenRecord
                  in (Inr (forward W u), d, [UpstreamCall u]))))"

text \<open>Two observations on a run of the handler, used to state its properties: whether a
  call to a token endpoint is among the outbound calls, and the text an inbound header
  value stands for (an array is sent as its elements joined by a comma and a space; an
  undefined value is no header).\<close>

fun is_token_call :: "outcall \<Rightarrow> bool" where
  "is_token_call (TokenCall rq) = True"
| "is_token_call (UpstreamCall u) = False"

definition performs_refresh :: "crypto_ctx \<Rightarrow> registry \<Rightarrow> world \<Rightarrow> db \<Rightarrow> proxy_request \<Rightarrow> bool" where
  "performs_refresh K reg W d rq \<longleftrightarrow> list_ex is_token_call (snd (snd (proxyHandler K reg W d rq)))"

fun header_text :: "header_value \<Rightarrow> string option" where
  "header_text (HString s) = Some s"
| "header_text (HArray vs) = Some (join '', '' vs)"
| "header_text HUndefined = None"

definition inbound :: "(string \<times> header_value) list \<Rightarrow> string \<Rightarrow> string option" where
  "inbound hs k = (case map_of hs k of None \<Rightarrow> None | Some v \<Rightarrow> header_text v)"

section \<open>auth.ts: the OAuth callback\<close>

record callback_query =
  q_code :: "string option"
  q_state :: "string option"
  q_error :: "string option"

definition authCallback ::
  "crypto_ctx \<Rightarrow> registry \<Rightarrow> world \<Rightarrow> db \<Rightarrow> string \<Rightarrow> callback_query \<Rightarrow>
   (error + reply) \<times> db \<times> outcall list" where
  "authCallback K reg W d p q =
     (if truthy (q_error q) then (Inr (HtmlError 400 (''OAuth error: '' @ the (q_error q))), d, [])
      else if \<not> truthy (q_code q) \<or> \<not> truthy (q_state q) then
        (Inr (HtmlError 400 ''Missing code or state parameter.''), d, [])
      else
        (case consumeOAuthState d (the (q_state q)) of
           (stateData, d') \<Rightarrow>
             if stateData = None \<or> fst (the stateData) \<noteq> p then
               (Inr (HtmlError 400 ''Invalid or expired state. Please try again.''), d', [])
             else
               (case reg p of
                  None \<Rightarrow> (Inr (HtmlError 404 (''Unknown provider: '' @ p)), d', [])
                | Some providerCfg \<Rightarrow>
                    (let call = CodeGrant (token_url providerCfg) (the (q_code q))
                                  (client_id providerCfg) (client_secret providerCfg)
                                  (BASE_URL W @ ''/auth/'' @ p @ ''/callback'');
                         failed = (Inr (HtmlError 500 ''Token exchange failed. Check server logs.''),
                                   d', [TokenCall call])
                     in case token_endpoint W call of
                          NetworkError \<Rightarrow> failed
                        | HttpResponse status body \<Rightarrow>
                            if \<not> ok status then failed
                            else
                              (case body of
                                 None \<Rightarrow> failed
                               | Some tokenData \<Rightarrow>
                                   if \<not> truthy (json_refresh_token tokenData) then
                                     (Inr (HtmlError 500
                                        ''No refresh token returned. Ensure you requested offline access.''),
                                      d', [TokenCall call])
                                   else
                                     (case storeToken K (now_store W) (nonce W) d' p
                                             (snd (the stateData))
                                             (the (json_refresh_token tokenData))
                                             (Some (json_access_token tokenData))
                                             (case json_expires_in tokenData of
                                                None \<Rightarrow> None
                                              | Some n \<Rightarrow>
                                                  if n = 0 then None else Some (now_handler W + n))
                                             (Some (case json_scope tokenData of
                                                      None \<Rightarrow> join '' '' (cfg_scopes providerCfg)
                                                    | Some sc \<Rightarrow> sc)) of
                                        Inl e \<Rightarrow> (Inl e, d', [TokenCall call])
                                      | Inr d'' \<Rightarrow>
                                          (Inr (HtmlSuccess p (snd (the stateData))), d'',
                                           [TokenCall call])))))))"

section \<open>refresh.ts: the background refresh loop\<close>

text \<open>\<^verbatim>\<open>refresh.ts\<close> has its own copy of the token exchange, \<^verbatim>\<open>refreshToken\<close>; it differs
  from \<^verbatim>\<open>refreshAccessToken\<close> only in the text of the error it throws, so the same
  definition serves both.\<close>

definition REFRESH_THRESHOLD_SEC :: int where
  "REFRESH_THRESHOLD_SEC = 10 * 60"

text \<open>
  \<^verbatim>\<open>runRefreshCycle\<close> is an \<^verbatim>\<open>async\<close> function: it runs until it awaits the network and
  is resumed when the answer arrives; between the two, other callbacks of the event loop
  run. A cycle in flight is the list of token records it has still to handle, the first of
  which is the one whose token request is on the wire. (Awaiting the store does not yield
  to timers: the SQLite store completes every call before it returns.)

  The state of the module and of the event loop around it: whether \<^verbatim>\<open>_timer\<close> is set, the
  cycles in flight and the database.
\<close>

record sched =
  timer :: bool
  cycles :: "stored_token list list"
  store :: db

text \<open>The loop body up to the next \<^verbatim>\<open>await fetch\<close>: tokens of unknown providers are
  skipped.\<close>

fun next_pending :: "registry \<Rightarrow> stored_token list \<Rightarrow> stored_token list" where
  "next_pending reg [] = []"
| "next_pending reg (t # ts) =
     (case reg (provider t) of None \<Rightarrow> next_pending reg ts | Some cfg \<Rightarrow> t # ts)"

text \<open>A call of \<^verbatim>\<open>runRefreshCycle\<close>, up to its first suspension. When the store throws,
  the promise is rejected; both callers discard it (\<^verbatim>\<open>void runRefreshCycle(store)\<close>) and
  no handler for unhandled rejections is installed, so the rejection ends the process
  (the default of the Node 20 runtime the service is built on): \<open>Inl\<close>.\<close>

definition runRefreshCycle :: "crypto_ctx \<Rightarrow> registry \<Rightarrow> int \<Rightarrow> sched \<Rightarrow> error + sched" where
  "runRefreshCycle K reg now s =
     (case getTokensNeedingRefresh K now (store s) REFRESH_THRESHOLD_SEC of
        Inl e \<Rightarrow> Inl e
      | Inr tokens \<Rightarrow>
          (case next_pending reg tokens of
             [] \<Rightarrow> Inr s
           | t # ts \<Rightarrow> Inr (s\<lparr>cycles := cycles s @ [t # ts]\<rparr>)))"

definition startRefreshLoop :: "crypto_ctx \<Rightarrow> registry \<Rightarrow> int \<Rightarrow> sched \<Rightarrow> error + sched" where
  "startRefreshLoop K reg now s =
     (if timer s then Inr s
      else (case runRefreshCycle K reg now s of
              Inl e \<Rightarrow> Inl e
            | Inr s' \<Rightarrow> Inr (s'\<lparr>timer := True\<rparr>)))"

text \<open>The callback given to \<^verbatim>\<open>setInterval\<close>; it only fires while the timer is set.\<close>

definition timer_tick :: "crypto_ctx \<Rightarrow> registry \<Rightarrow> int \<Rightarrow> sched \<Rightarrow> error + sched" where
  "timer_tick K reg now s = (if timer s then runRefreshCycle K reg now s else Inr s)"

definition stopRefreshLoop :: "sched \<Rightarrow> sched" where
  "stopRefreshLoop s = s\<lparr>timer := False\<rparr>"

text \<open>The token request of cycle \<open>i\<close> completes: on success the new access token is
  written, on failure the error is logged; the cycle then moves on to its next token, or
  ends. Nothing escapes here: the exchange and the write are inside the \<^verbatim>\<open>try\<close>.\<close>

definition resume_cycle :: "registry \<Rightarrow> world \<Rightarrow> nat \<Rightarrow> sched \<Rightarrow> sched" where
  "resume_cycle reg W i s =
     (if i < length (cycles s) then
        (case cycles s ! i of
           [] \<Rightarrow> s\<lparr>cycles := take i (cycles s) @ drop (Suc i) (cycles s)\<rparr>
         | t # ts \<Rightarrow>
             (let d' = (case reg (provider t) of
                          None \<Rightarrow> store s
                        | Some cfg \<Rightarrow>
                            (case refreshAccessToken W
                                    (RefreshGrant (token_url cfg) (refreshToken t)
                                       (client_id cfg) (client_secret cfg)) of
                               None \<Rightarrow> store s
                             | Some (at, ea) \<Rightarrow>
                                 updateAccessToken (now_store W) (store s) (provider t) (account t) at ea))
              in (case next_pending reg ts of
                    [] \<Rightarrow> s\<lparr>cycles := take i (cycles s) @ drop (Suc i) (cycles s), store := d'\<rparr>
                  | t' # ts' \<Rightarrow> s\<lparr>cycles := (cycles s)[i := t' # ts'], store := d'\<rparr>)))
      else s)"

datatype event =
    Start int
  | Tick int
  | Stop
  | Answer nat world

fun sched_step :: "crypto_ctx \<Rightarrow> registry \<Rightarrow> sched \<Rightarrow> event \<Rightarrow> error + sched" where
  "sched_step K reg s (Start now) = startRefreshLoop K reg now s"
| "sched_step K reg s (Tick now) = timer_tick K reg now s"
| "sched_step K reg s Stop = Inr (stopRefreshLoop s)"
| "sched_step K reg s (Answer i W) = Inr (resume_cycle reg W i s)"

text \<open>A sequence of events, until one of them ends the process.\<close>

fun run :: "crypto_ctx \<Rightarrow> registry \<Rightarrow> sched \<Rightarrow> event list \<Rightarrow> error + sched" where
  "run K reg s [] = Inr s"
| "run K reg s (ev # evs) =
     (case sched_step K reg s ev of Inl e \<Rightarrow> Inl e | Inr s' \<Rightarrow> run K reg s' evs)"

section \<open>A small cipher to run the model on\<close>

text \<open>A stand-in for AES-256-GCM with the same interface: it insists on a 32-byte key
  and a non-empty nonce, copies the plaintext and uses a constant 16-byte tag. It only
  serves to evaluate the definitions on concrete inputs.\<close>

definition demo_tag :: bytes where
  "demo_tag = [0, 0, 0, 0, 0, 0, 0, 0, 0, 0, 0, 0, 0, 0, 0, 0]"

definition demo_ctx :: crypto_ctx where
  "demo_ctx =
     \<lparr>ENCRYPTION_KEY = Some (js ''0000000000000000000000000000000000000000000000000000000000000000''),
      gcm_seal = (\<lambda>key iv pt. if length key = 32 \<and> iv \<noteq> [] then Some (pt, demo_tag) else None),
      gcm_open = (\<lambda>key iv ct tag.
                    if length key = 32 \<and> iv \<noteq> [] \<and> tag = demo_tag then Some ct else None)\<rparr>"

definition demo_nonce :: bytes where
  "demo_nonce = [1, 2, 3, 4, 5, 6, 7, 8, 9, 10, 11, 12]"

text \<open>Rows and a database to evaluate the store on.\<close>

definition demo_row :: "string \<Rightarrow> string \<Rightarrow> conn_row" where
  "demo_row p a =
     \<lparr>row_id = p @ '':'' @ a, row_provider = p, row_account = a,
      refresh_token_encrypted = js ''0102030405060708090a0b0c:723100000000000000000000000000000000'',
      access_token = Some ''a1'', expires_at = Some 5000, row_scopes = None,
      created_at = 1000, updated_at = 1000\<rparr>"

definition demo_db :: "conn_row list \<Rightarrow> db" where
  "demo_db rows = \<lparr>connections = rows, oauth_states = []\<rparr>"

text \<open>A registry with two providers, and a world in which the token endpoint always gives
  the same answer and the upstream API always answers 200.\<close>

definition demo_cfg :: provider_cfg where
  "demo_cfg =
     \<lparr>display_name = ''Oura Ring'', base_url = ''https://api.ouraring.com'',
      auth_url = ''https://cloud.ouraring.com/oauth/authorize'',
      token_url = ''https://api.ouraring.com/oauth/token'',
      client_id = ''id'', client_secret = ''secret'', cfg_scopes = [''daily'', ''sleep'']\<rparr>"

definition demo_registry :: registry where
  "demo_registry slug = (if slug = ''oura'' \<or> slug = ''gcal'' then Some demo_cfg else None)"

definition demo_world :: "int \<Rightarrow> token_response \<Rightarrow> world" where
  "demo_world now res =
     \<lparr>now_handler = now, now_parsed = now, now_store = now, nonce = demo_nonce,
      BASE_URL = ''http://localhost:3001'',
      token_endpoint = (\<lambda>rq. res),
      upstream = (\<lambda>u. UpstreamResponse 200 [(''content-type'', ''application/json'')] ''{}'')\<rparr>"

definition demo_grant :: token_response where
  "demo_grant =
     HttpResponse 200
       (Some \<lparr>json_access_token = ''a2'', json_expires_in = Some 3600,
              json_refresh_token = Some (js ''r2''), json_scope = None\<rparr>)"

definition demo_query :: "string \<Rightarrow> string \<Rightarrow> callback_query" where
  "demo_query c s = \<lparr>q_code = Some c, q_state = Some s, q_error = None\<rparr>"

definition demo_token :: stored_token where
  "demo_token =
     \<lparr>provider = ''oura'', account = ''daniel'', refreshToken = js ''r1'',
      accessToken = Some ''a1'', expiresAt = Some 5000, scopes = None, createdAt = 1000,
      updatedAt = 1000\<rparr>"

text \<open>A proxied \<^verbatim>\<open>GET /proxy/oura/v2/sleep?account=daniel\<close> carrying the caller's API key,
  and a row whose access token is the empty string.\<close>

definition demo_request :: proxy_request where
  "demo_request =
     \<lparr>param_provider = ''oura'', param_wildcard = ''v2/sleep'', query_account = Some ''daniel'',
      query_rest = [(''day'', QString ''2024-01-01'')], req_method = ''GET'',
      req_headers = [(''Authorization'', HString ''Bearer perpetua-api-key''),
                     (''host'', HString ''localhost:3001''),
                     (''accept'', HArray [''text/plain'', ''application/json'']),
                     (''x-trace'', HString ''t1'')],
      req_body = BUndefined\<rparr>"

definition demo_row_empty :: conn_row where
  "demo_row_empty = (demo_row ''oura'' ''daniel'')\<lparr>access_token := Some [], expires_at := Some 4600\<rparr>"

text \<open>The refresh loop before it is started, over a table whose one token expires at
  second 5000.\<close>

definition demo_sched :: sched where
  "demo_sched = \<lparr>timer = False, cycles = [], store = demo_db [demo_row ''oura'' ''daniel'']\<rparr>"

definition demo_started :: sched where
  "demo_started =
     \<lparr>timer = True, cycles = [[demo_token]], store = demo_db [demo_row ''oura'' ''daniel'']\<rparr>"

chapter \<open>Properties\<close>

section \<open>Shared facts about lists and rows\<close>

lemma find_SomeD: "find P xs = Some x \<Longrightarrow> x \<in> set xs \<and> P x"
  by (induction xs) (auto split: if_splits)

lemma unique_keys_row:
  assumes "unique_keys d" "r \<in> set (connections d)" "r' \<in> set (connections d)"
    "row_provider r = row_provider r'" "row_account r = row_account r'"
  shows "r = r'"
proof -
  have "inj_on (\<lambda>r. (row_provider r, row_account r)) (set (connections d))"
    using assms(1) unfolding unique_keys_def by (simp add: distinct_map)
  then show ?thesis using assms(2-5) by (auto dest: inj_onD)
qed

lemma stored_of_row_Some:
  "stored_of_row K r = Inr (Some t) \<longleftrightarrow> rowToRecord K r = Inr t"
  by (auto simp: stored_of_row_def split: sum.splits)




lemma rowToRecord_InrD:
  assumes "rowToRecord K row = Inr t"
  obtains rt0 where "decrypt K (refresh_token_encrypted row) = Inr rt0"
    and "t = \<lparr>provider = row_provider row, account = row_account row,
      refreshToken = rt0, accessToken = access_token row, expiresAt = expires_at row,
      scopes = row_scopes row, createdAt = created_at row, updatedAt = updated_at row\<rparr>"
  using assms by (auto simp: rowToRecord_def split: sum.splits)

section \<open>The small cipher, evaluated\<close>

lemma demo_getKey:
  "getKey demo_ctx = Inr [0,0,0,0,0,0,0,0,0,0,0,0,0,0,0,0,0,0,0,0,0,0,0,0,0,0,0,0,0,0,0,0]"
  by (simp add: getKey_def demo_ctx_def js_def unhex_def)

lemma demo_encrypt_r2:
  "encrypt demo_ctx demo_nonce (js ''r2'')
     = Inr (js ''0102030405060708090a0b0c:723200000000000000000000000000000000'')"
proof -
  have p: "utf8_encode (js ''r2'') = [114, 50]"
    by (simp add: js_def is_high_def is_low_def utf8_of_cp_def)
  have h1: "toString_hex demo_nonce = js ''0102030405060708090a0b0c''"
    by (simp add: toString_hex_def hex_digit_def js_def demo_nonce_def)
  have h2: "toString_hex (114 # 50 # demo_tag) = js ''723200000000000000000000000000000000''"
    by (simp add: toString_hex_def hex_digit_def js_def demo_tag_def)
  have "encrypt demo_ctx demo_nonce (js ''r2'')
          = Inr (toString_hex demo_nonce @ js '':'' @ toString_hex (114 # 50 # demo_tag))"
    unfolding encrypt_def demo_getKey p by (simp add: demo_ctx_def demo_nonce_def)
  then show ?thesis unfolding h1 h2 by (simp add: js_def)
qed

lemma demo_decrypt_r1:
  "decrypt demo_ctx (js ''0102030405060708090a0b0c:723100000000000000000000000000000000'')
     = Inr (js ''r1'')"
  unfolding decrypt_def demo_getKey
  apply (simp add: js_def Let_def nth_opt_def truthy_def)
  apply (simp add: unhex_def subarray_def clamp_index_def TAG_BYTES_def demo_ctx_def demo_tag_def
           utf8_decode.simps)
  done


lemma demo_getToken:
  "getToken demo_ctx (demo_db [demo_row ''oura'' ''daniel'']) ''oura'' ''daniel'' = Inr (Some demo_token)"
  by (simp add: getToken_def demo_db_def demo_row_def stored_of_row_def rowToRecord_def
        demo_decrypt_r1 demo_token_def)

lemma demo_loadToken:
  "loadToken demo_ctx (demo_db [demo_row ''oura'' ''daniel'']) ''oura'' (Some ''daniel'')
     = Inr (Some demo_token, ''daniel'')"
  by (simp add: loadToken_def truthy_def demo_getToken)

lemma demo_loadToken_empty:
  "loadToken demo_ctx (demo_db [demo_row_empty]) ''oura'' (Some ''daniel'')
     = Inr (Some (demo_token\<lparr>accessToken := Some [], expiresAt := Some 4600\<rparr>), ''daniel'')"
  by (simp add: loadToken_def truthy_def getToken_def demo_db_def demo_row_empty_def demo_row_def
        stored_of_row_def rowToRecord_def demo_decrypt_r1 demo_token_def)

lemma demo_needing_refresh:
  "4400 < now \<Longrightarrow>
   getTokensNeedingRefresh demo_ctx now (demo_db [demo_row ''oura'' ''daniel'']) REFRESH_THRESHOLD_SEC
     = Inr [demo_token]"
  by (simp add: getTokensNeedingRefresh_def demo_db_def demo_row_def REFRESH_THRESHOLD_SEC_def
        rowToRecord_def demo_decrypt_r1 demo_token_def)

lemma demo_start:
  "startRefreshLoop demo_ctx demo_registry 4500 demo_sched = Inr demo_started"
proof -
  have np: "demo_registry (provider demo_token) = Some demo_cfg"
    by (simp add: demo_registry_def demo_token_def)
  show ?thesis
    unfolding startRefreshLoop_def runRefreshCycle_def
    by (simp add: demo_sched_def demo_started_def demo_needing_refresh np)
qed

lemma demo_tick:
  "timer_tick demo_ctx demo_registry 4800 demo_started
     = Inr \<lparr>timer = True, cycles = [[demo_token], [demo_token]],
            store = demo_db [demo_row ''oura'' ''daniel'']\<rparr>"
proof -
  have np: "demo_registry (provider demo_token) = Some demo_cfg"
    by (simp add: demo_registry_def demo_token_def)
  show ?thesis
    unfolding timer_tick_def runRefreshCycle_def
    by (simp add: demo_started_def demo_needing_refresh np)
qed

section \<open>Account resolution\<close>

text \<open>The three branches of \<^verbatim>\<open>getDefaultToken\<close> in terms of the number of rows of the
  provider; the \<^verbatim>\<open>ORDER BY\<close> changes neither the number nor the members.\<close>

lemma getDefaultToken_cases:
  "getDefaultToken K d p =
     (if rows_of d p = [] then Inr None
      else if length (rows_of d p) = 1 then stored_of_row K (hd (rows_of d p))
      else (case find (\<lambda>r. row_account r = ''default'') (sort_key row_account (rows_of d p)) of
              None \<Rightarrow> Inr None | Some r \<Rightarrow> stored_of_row K r))"
proof -
  let ?rs = "rows_of d p"
  let ?s = "sort_key row_account ?rs"
  have len: "length ?s = length ?rs" by simp
  show ?thesis
  proof (cases ?s)
    case Nil
    then have "?rs = []" using len by simp
    then show ?thesis using Nil by (simp add: getDefaultToken_def rows_of_def)
  next
    case (Cons x xs)
    note outer = Cons
    show ?thesis
    proof (cases xs)
      case Nil
      then have l1: "length ?rs = 1" using outer len by simp
      then obtain y where y: "?rs = [y]" by (cases ?rs) auto
      then show ?thesis using outer Nil l1
        by (simp add: getDefaultToken_def rows_of_def)
    next
      case (Cons y ys)
      then have l2: "?rs \<noteq> []" "length ?rs \<noteq> 1" using outer len by auto
      have "getDefaultToken K d p =
          (case find (\<lambda>r. row_account r = ''default'') ?s of
              None \<Rightarrow> Inr None | Some r \<Rightarrow> stored_of_row K r)"
        using outer Cons unfolding getDefaultToken_def rows_of_def
        by (simp only: list.case)
      then show ?thesis using l2 by simp
    qed
  qed
qed

text \<open>Which row is selected, in a table that satisfies its \<^verbatim>\<open>UNIQUE(provider, account)\<close>
  constraint.\<close>

lemma getDefaultToken_rows:
  assumes "unique_keys d"
  shows "(rows_of d p = [] \<longrightarrow> getDefaultToken K d p = Inr None)
   \<and> (\<forall>r. rows_of d p = [r] \<longrightarrow> getDefaultToken K d p = stored_of_row K r)
   \<and> (2 \<le> length (rows_of d p) \<longrightarrow>
        (\<forall>r \<in> set (rows_of d p). row_account r = ''default'' \<longrightarrow>
            getDefaultToken K d p = stored_of_row K r)
      \<and> ((\<forall>r \<in> set (rows_of d p). row_account r \<noteq> ''default'') \<longrightarrow>
            getDefaultToken K d p = Inr None))
   \<and> (\<forall>t. getDefaultToken K d p = Inr (Some t) \<longrightarrow>
        (\<exists>r \<in> set (connections d). row_provider r = p \<and> rowToRecord K r = Inr t
           \<and> (rows_of d p = [r] \<or> row_account r = ''default'')))"
proof -
  let ?rs = "rows_of d p"
  let ?P = "\<lambda>r. row_account r = ''default''"
  let ?s = "sort_key row_account ?rs"
  have set_s: "set ?s = set ?rs" by simp
  have in_rs: "\<And>r. r \<in> set ?rs \<longleftrightarrow> r \<in> set (connections d) \<and> row_provider r = p"
    by (auto simp: rows_of_def)
  have c1: "?rs = [] \<longrightarrow> getDefaultToken K d p = Inr None"
    by (simp add: getDefaultToken_cases)
  have c2: "\<forall>r. ?rs = [r] \<longrightarrow> getDefaultToken K d p = stored_of_row K r"
    by (simp add: getDefaultToken_cases)
  have c3: "getDefaultToken K d p = stored_of_row K r"
    if "2 \<le> length ?rs" "r \<in> set ?rs" "?P r" for r
  proof -
    from that(2,3) set_s have "\<exists>x \<in> set ?s. ?P x" by blast
    then obtain r0 where r0: "find ?P ?s = Some r0"
      by (cases "find ?P ?s") (auto simp: find_None_iff)
    then have "r0 \<in> set ?s" "?P r0"
      using find_SomeD[of ?P ?s r0] by auto
    then have "r0 \<in> set (connections d)" "row_provider r0 = p" "row_account r0 = row_account r"
      using set_s in_rs that(3) by auto
    moreover have "r \<in> set (connections d)" "row_provider r = p" using that(2) in_rs by auto
    ultimately have "r0 = r" using unique_keys_row[OF assms, of r0 r] by simp
    moreover have "?rs \<noteq> []" "length ?rs \<noteq> 1" using that(1) by auto
    ultimately show ?thesis using r0 by (simp add: getDefaultToken_cases)
  qed
  have c4: "getDefaultToken K d p = Inr None"
    if "2 \<le> length ?rs" "\<forall>r \<in> set ?rs. \<not> ?P r"
  proof -
    have "find ?P ?s = None" using that(2) set_s by (simp add: find_None_iff)
    moreover have "?rs \<noteq> []" "length ?rs \<noteq> 1" using that(1) by auto
    ultimately show ?thesis by (simp add: getDefaultToken_cases)
  qed
  have c5: "\<exists>r \<in> set (connections d). row_provider r = p \<and> rowToRecord K r = Inr t
           \<and> (?rs = [r] \<or> row_account r = ''default'')"
    if res: "getDefaultToken K d p = Inr (Some t)" for t
  proof -
    consider "length ?rs = 0" | "length ?rs = 1" | "2 \<le> length ?rs" by linarith
    then show ?thesis
    proof cases
      case 1
      then show ?thesis using res by (simp add: getDefaultToken_cases)
    next
      case 2
      then obtain y where y: "?rs = [y]" by (cases ?rs) auto
      then have "y \<in> set ?rs" by simp
      then have "y \<in> set (connections d)" "row_provider y = p" using in_rs by auto
      moreover have "rowToRecord K y = Inr t"
        using res y by (simp add: getDefaultToken_cases stored_of_row_Some)
      ultimately show ?thesis using y by blast
    next
      case 3
      then have "?rs \<noteq> []" "length ?rs \<noteq> 1" by auto
      then have g: "getDefaultToken K d p =
         (case find ?P ?s of None \<Rightarrow> Inr None | Some r \<Rightarrow> stored_of_row K r)"
        by (simp add: getDefaultToken_cases)
      then obtain r0 where r0: "find ?P ?s = Some r0" "stored_of_row K r0 = Inr (Some t)"
        using res by (cases "find ?P ?s") auto
      then have "r0 \<in> set ?s" "?P r0" using find_SomeD[of ?P ?s r0] by auto
      then have "r0 \<in> set (connections d)" "row_provider r0 = p"
        using set_s in_rs by auto
      then show ?thesis using r0(2) \<open>?P r0\<close> by (auto simp: stored_of_row_Some)
    qed
  qed
  show ?thesis using c1 c2 c3 c4 c5 by blast
qed

lemma stored_of_row_decrypt:
  "stored_of_row K r =
     (case decrypt K (refresh_token_encrypted r) of
        Inl e \<Rightarrow> Inl e
      | Inr rt \<Rightarrow>
          Inr (Some \<lparr>provider = row_provider r, account = row_account r, refreshToken = rt,
                     accessToken = access_token r, expiresAt = expires_at r,
                     scopes = row_scopes r, createdAt = created_at r,
                     updatedAt = updated_at r\<rparr>))"
  by (simp add: stored_of_row_def rowToRecord_def split: sum.splits)

text \<open>
  Claim C3 as stated has \<^verbatim>\<open>getDefaultToken\<close> return the sole record of a provider in every
  store state. The record is built by \<^verbatim>\<open>rowToRecord\<close>, which decrypts the refresh token,
  so the call throws whenever that fails. With one row \<^verbatim>\<open>oura/x\<close> in the table: without
  \<^verbatim>\<open>ENCRYPTION_KEY\<close> the call fails in \<^verbatim>\<open>getKey\<close>, and with the key set but one byte
  of the stored tag changed it fails in the cipher. Neither the record nor absent is
  returned.
\<close>

theorem getDefaultToken_counterexample:
  "rows_of (demo_db [demo_row ''oura'' ''x'']) ''oura'' = [demo_row ''oura'' ''x'']
   \<and> getDefaultToken (demo_ctx\<lparr>ENCRYPTION_KEY := None\<rparr>) (demo_db [demo_row ''oura'' ''x'']) ''oura''
       = Inl ConfigError
   \<and> rows_of (demo_db [(demo_row ''oura'' ''x'')\<lparr>refresh_token_encrypted :=
                  js ''0102030405060708090a0b0c:7231ff000000000000000000000000000000''\<rparr>]) ''oura''
       = [(demo_row ''oura'' ''x'')\<lparr>refresh_token_encrypted :=
                  js ''0102030405060708090a0b0c:7231ff000000000000000000000000000000''\<rparr>]
   \<and> getDefaultToken demo_ctx
         (demo_db [(demo_row ''oura'' ''x'')\<lparr>refresh_token_encrypted :=
                  js ''0102030405060708090a0b0c:7231ff000000000000000000000000000000''\<rparr>]) ''oura''
       = Inl CipherError"
proof -
  let ?bad = "(demo_row ''oura'' ''x'')\<lparr>refresh_token_encrypted :=
                  js ''0102030405060708090a0b0c:7231ff000000000000000000000000000000''\<rparr>"
  have r1: "rows_of (demo_db [demo_row ''oura'' ''x'']) ''oura'' = [demo_row ''oura'' ''x'']"
    by (simp add: rows_of_def demo_db_def demo_row_def)
  have r2: "rows_of (demo_db [?bad]) ''oura'' = [?bad]"
    by (simp add: rows_of_def demo_db_def demo_row_def)
  have k: "decrypt (demo_ctx\<lparr>ENCRYPTION_KEY := None\<rparr>) e = Inl ConfigError" for e
    by (simp add: decrypt_def getKey_def)
  have g1: "getDefaultToken (demo_ctx\<lparr>ENCRYPTION_KEY := None\<rparr>) (demo_db [demo_row ''oura'' ''x''])
              ''oura'' = Inl ConfigError"
    by (simp add: getDefaultToken_cases r1 stored_of_row_decrypt k)
  have c: "decrypt demo_ctx (js ''0102030405060708090a0b0c:7231ff000000000000000000000000000000'')
             = Inl CipherError"
    unfolding decrypt_def demo_getKey
    apply (simp add: js_def Let_def nth_opt_def truthy_def)
    apply (simp add: unhex_def subarray_def clamp_index_def TAG_BYTES_def demo_ctx_def demo_tag_def)
    done
  have g2: "getDefaultToken demo_ctx (demo_db [?bad]) ''oura'' = Inl CipherError"
    by (simp add: getDefaultToken_cases r2 stored_of_row_decrypt c)
  show ?thesis by (intro conjI) (rule r1, rule g1, rule r2, rule g2)
qed

text \<open>
  Claim C3, amended. In a table that satisfies \<^verbatim>\<open>UNIQUE(provider, account)\<close>, for every
  provider \<open>p\<close> and every key and cipher: with no row of \<open>p\<close> the result is absent; with
  exactly one row of \<open>p\<close>, whatever its account, and with two or more rows of which one
  has the account \<^verbatim>\<open>default\<close>, the result is decided by decrypting the refresh token of
  that row: when decryption fails the call fails with the same error, and otherwise the
  result is the record that carries the row's provider, account, access token, expiry,
  scopes and timestamps together with the decrypted refresh token; with two or more rows
  none of which is \<^verbatim>\<open>default\<close> the result is absent. Whenever a record is returned, it
  is that of the sole row or of the \<^verbatim>\<open>default\<close> row of \<open>p\<close>, never of another row.
\<close>

theorem getDefaultToken_resolution:
  assumes "unique_keys d"
  shows "(rows_of d p = [] \<longrightarrow> getDefaultToken K d p = Inr None)
   \<and> (\<forall>r. rows_of d p = [r]
             \<or> (2 \<le> length (rows_of d p) \<and> r \<in> set (rows_of d p) \<and> row_account r = ''default'')
          \<longrightarrow> getDefaultToken K d p =
                (case decrypt K (refresh_token_encrypted r) of
                   Inl e \<Rightarrow> Inl e
                 | Inr rt \<Rightarrow>
                     Inr (Some \<lparr>provider = row_provider r, account = row_account r,
                                refreshToken = rt, accessToken = access_token r,
                                expiresAt = expires_at r, scopes = row_scopes r,
                                createdAt = created_at r, updatedAt = updated_at r\<rparr>)))
   \<and> (2 \<le> length (rows_of d p) \<and> (\<forall>r \<in> set (rows_of d p). row_account r \<noteq> ''default'')
          \<longrightarrow> getDefaultToken K d p = Inr None)
   \<and> (\<forall>t. getDefaultToken K d p = Inr (Some t) \<longrightarrow>
          (\<exists>r \<in> set (connections d). \<exists>rt.
              row_provider r = p
            \<and> (rows_of d p = [r] \<or> row_account r = ''default'')
            \<and> decrypt K (refresh_token_encrypted r) = Inr rt
            \<and> t = \<lparr>provider = row_provider r, account = row_account r,
                     refreshToken = rt, accessToken = access_token r,
                     expiresAt = expires_at r, scopes = row_scopes r,
                     createdAt = created_at r, updatedAt = updated_at r\<rparr>))"
proof -
  note rows = getDefaultToken_rows[OF assms, of p K]
  have c1: "rows_of d p = [] \<longrightarrow> getDefaultToken K d p = Inr None"
    using rows by (rule conjunct1)
  have sole: "\<forall>r. rows_of d p = [r] \<longrightarrow> getDefaultToken K d p = stored_of_row K r"
    using rows by (elim conjE)
  have many: "2 \<le> length (rows_of d p) \<longrightarrow>
        (\<forall>r \<in> set (rows_of d p). row_account r = ''default'' \<longrightarrow>
            getDefaultToken K d p = stored_of_row K r)
      \<and> ((\<forall>r \<in> set (rows_of d p). row_account r \<noteq> ''default'') \<longrightarrow>
            getDefaultToken K d p = Inr None)"
    using rows by (elim conjE)
  have only: "\<forall>t. getDefaultToken K d p = Inr (Some t) \<longrightarrow>
        (\<exists>r \<in> set (connections d). row_provider r = p \<and> rowToRecord K r = Inr t
           \<and> (rows_of d p = [r] \<or> row_account r = ''default''))"
    using rows by (elim conjE)
  have c2: "getDefaultToken K d p =
                (case decrypt K (refresh_token_encrypted r) of
                   Inl e \<Rightarrow> Inl e
                 | Inr rt \<Rightarrow>
                     Inr (Some \<lparr>provider = row_provider r, account = row_account r,
                                refreshToken = rt, accessToken = access_token r,
                                expiresAt = expires_at r, scopes = row_scopes r,
                                createdAt = created_at r, updatedAt = updated_at r\<rparr>))"
    if "rows_of d p = [r]
          \<or> (2 \<le> length (rows_of d p) \<and> r \<in> set (rows_of d p) \<and> row_account r = ''default'')"
    for r
  proof -
    have "getDefaultToken K d p = stored_of_row K r"
      using that sole many by fast
    then show ?thesis by (simp only: stored_of_row_decrypt)
  qed
  have c3: "2 \<le> length (rows_of d p) \<and> (\<forall>r \<in> set (rows_of d p). row_account r \<noteq> ''default'')
          \<longrightarrow> getDefaultToken K d p = Inr None"
    using many by fast
  have c4: "\<exists>r \<in> set (connections d). \<exists>rt.
              row_provider r = p
            \<and> (rows_of d p = [r] \<or> row_account r = ''default'')
            \<and> decrypt K (refresh_token_encrypted r) = Inr rt
            \<and> t = \<lparr>provider = row_provider r, account = row_account r,
                     refreshToken = rt, accessToken = access_token r,
                     expiresAt = expires_at r, scopes = row_scopes r,
                     createdAt = created_at r, updatedAt = updated_at r\<rparr>"
    if "getDefaultToken K d p = Inr (Some t)" for t
  proof -
    from only that obtain r where r: "r \<in> set (connections d)" "row_provider r = p"
      "rowToRecord K r = Inr t" "rows_of d p = [r] \<or> row_account r = ''default''"
      by fast
    from r(3) obtain rt where rt: "decrypt K (refresh_token_encrypted r) = Inr rt"
      and t: "t = \<lparr>provider = row_provider r, account = row_account r,
      refreshToken = rt, accessToken = access_token r, expiresAt = expires_at r,
      scopes = row_scopes r, createdAt = created_at r, updatedAt = updated_at r\<rparr>"
      by (rule rowToRecord_InrD)
    show ?thesis
      by (intro bexI[of _ r] exI[of _ rt] conjI) (rule r(2), rule r(4), rule rt, rule t, rule r(1))
  qed
  show ?thesis
  proof (intro conjI allI impI)
    assume "rows_of d p = []" then show "getDefaultToken K d p = Inr None" using c1 by simp
  next
    fix r assume "rows_of d p = [r]
          \<or> (2 \<le> length (rows_of d p) \<and> r \<in> set (rows_of d p) \<and> row_account r = ''default'')"
    then show "getDefaultToken K d p =
                (case decrypt K (refresh_token_encrypted r) of
                   Inl e \<Rightarrow> Inl e
                 | Inr rt \<Rightarrow>
                     Inr (Some \<lparr>provider = row_provider r, account = row_account r,
                                refreshToken = rt, accessToken = access_token r,
                                expiresAt = expires_at r, scopes = row_scopes r,
                                createdAt = created_at r, updatedAt = updated_at r\<rparr>))"
      by (rule c2)
  next
    assume "2 \<le> length (rows_of d p) \<and> (\<forall>r \<in> set (rows_of d p). row_account r \<noteq> ''default'')"
    then show "getDefaultToken K d p = Inr None" using c3 by simp
  next
    fix t assume "getDefaultToken K d p = Inr (Some t)"
    then show "\<exists>r \<in> set (connections d). \<exists>rt.
              row_provider r = p
            \<and> (rows_of d p = [r] \<or> row_account r = ''default'')
            \<and> decrypt K (refresh_token_encrypted r) = Inr rt
            \<and> t = \<lparr>provider = row_provider r, account = row_account r,
                     refreshToken = rt, accessToken = access_token r,
                     expiresAt = expires_at r, scopes = row_scopes r,
                     createdAt = created_at r, updatedAt = updated_at r\<rparr>"
      by (rule c4)
  qed
qed

text \<open>No row; one row \<^verbatim>\<open>oura/x\<close>; rows \<^verbatim>\<open>oura/a\<close> and \<^verbatim>\<open>oura/b\<close>; rows \<^verbatim>\<open>oura/a\<close>,
  \<^verbatim>\<open>gcal/b\<close> and \<^verbatim>\<open>oura/default\<close>. The refresh token stored in each row decrypts to
  \<^verbatim>\<open>r1\<close>.\<close>

theorem getDefaultToken_resolution_witness:
  "getDefaultToken demo_ctx (demo_db []) ''oura'' = Inr None
   \<and> getDefaultToken demo_ctx (demo_db [demo_row ''oura'' ''x'']) ''oura''
       = Inr (Some \<lparr>provider = ''oura'', account = ''x'', refreshToken = js ''r1'',
                    accessToken = Some ''a1'', expiresAt = Some 5000, scopes = None,
                    createdAt = 1000, updatedAt = 1000\<rparr>)
   \<and> getDefaultToken demo_ctx (demo_db [demo_row ''oura'' ''a'', demo_row ''oura'' ''b'']) ''oura''
       = Inr None
   \<and> getDefaultToken demo_ctx
         (demo_db [demo_row ''oura'' ''a'', demo_row ''gcal'' ''b'', demo_row ''oura'' ''default''])
         ''oura''
       = Inr (Some \<lparr>provider = ''oura'', account = ''default'', refreshToken = js ''r1'',
                    accessToken = Some ''a1'', expiresAt = Some 5000, scopes = None,
                    createdAt = 1000, updatedAt = 1000\<rparr>)"
proof -
  let ?d3 = "demo_db [demo_row ''oura'' ''a'', demo_row ''gcal'' ''b'', demo_row ''oura'' ''default'']"
  have u: "unique_keys (demo_db [])" "unique_keys (demo_db [demo_row ''oura'' ''x''])"
    "unique_keys (demo_db [demo_row ''oura'' ''a'', demo_row ''oura'' ''b''])"
    "unique_keys ?d3"
    by (simp_all add: unique_keys_def demo_db_def demo_row_def)
  have dec: "decrypt demo_ctx (refresh_token_encrypted (demo_row ''oura'' a)) = Inr (js ''r1'')" for a
    by (simp add: demo_row_def demo_decrypt_r1)
  have a: "getDefaultToken demo_ctx (demo_db []) ''oura'' = Inr None"
    using getDefaultToken_resolution[OF u(1), of "''oura''" demo_ctx]
    by (simp add: rows_of_def demo_db_def)
  have r1: "rows_of (demo_db [demo_row ''oura'' ''x'']) ''oura'' = [demo_row ''oura'' ''x'']"
    by (simp add: rows_of_def demo_db_def demo_row_def)
  have b: "getDefaultToken demo_ctx (demo_db [demo_row ''oura'' ''x'']) ''oura''
       = Inr (Some \<lparr>provider = ''oura'', account = ''x'', refreshToken = js ''r1'',
                    accessToken = Some ''a1'', expiresAt = Some 5000, scopes = None,
                    createdAt = 1000, updatedAt = 1000\<rparr>)"
    using getDefaultToken_resolution[OF u(2), of "''oura''" demo_ctx, THEN conjunct2, THEN conjunct1,
        THEN spec, of "demo_row ''oura'' ''x''"] r1
    by (simp add: dec) (simp add: demo_row_def)
  have r2: "rows_of (demo_db [demo_row ''oura'' ''a'', demo_row ''oura'' ''b'']) ''oura''
              = [demo_row ''oura'' ''a'', demo_row ''oura'' ''b'']"
    by (simp add: rows_of_def demo_db_def demo_row_def)
  have c: "getDefaultToken demo_ctx (demo_db [demo_row ''oura'' ''a'', demo_row ''oura'' ''b''])
             ''oura'' = Inr None"
    using getDefaultToken_resolution[OF u(3), of "''oura''" demo_ctx, THEN conjunct2, THEN conjunct2,
        THEN conjunct1]
    unfolding r2 by (simp add: demo_row_def)
  have r3: "rows_of ?d3 ''oura'' = [demo_row ''oura'' ''a'', demo_row ''oura'' ''default'']"
    by (simp add: rows_of_def demo_db_def demo_row_def)
  have d: "getDefaultToken demo_ctx ?d3 ''oura''
       = Inr (Some \<lparr>provider = ''oura'', account = ''default'', refreshToken = js ''r1'',
                    accessToken = Some ''a1'', expiresAt = Some 5000, scopes = None,
                    createdAt = 1000, updatedAt = 1000\<rparr>)"
    using getDefaultToken_resolution[OF u(4), of "''oura''" demo_ctx, THEN conjunct2, THEN conjunct1,
        THEN spec, of "demo_row ''oura'' ''default''"]
    unfolding r3 by (simp add: dec) (simp add: demo_row_def)
  show ?thesis by (intro conjI) (rule a, rule b, rule c, rule d)
qed

section \<open>OAuth handshake states\<close>

lemma consume_absent:
  "find (\<lambda>r. state r = s) (oauth_states d) = None \<Longrightarrow> consumeOAuthState d s = (None, d)"
  by (simp add: consumeOAuthState_def)

lemma find_filter_neq: "find (\<lambda>r. f r = s) (filter (\<lambda>r. f r \<noteq> s) xs) = None"
  by (induction xs) auto

lemma find_filter_unique:
  "distinct (map f xs) \<Longrightarrow> find (\<lambda>r. f r = s) xs = Some row \<Longrightarrow>
   find (\<lambda>r. f r = s) (filter Q xs) = (if Q row then Some row else None)"
proof (induction xs)
  case Nil
  then show ?case by simp
next
  case (Cons x xs)
  show ?case
  proof (cases "f x = s")
    case True
    then have x: "x = row" using Cons.prems(2) by simp
    have "s \<notin> f ` set xs" using Cons.prems(1) True by auto
    then have none: "find (\<lambda>r. f r = s) (filter Q xs) = None"
      by (auto simp: find_None_iff)
    show ?thesis using True x none by simp
  next
    case False
    then show ?thesis using Cons by simp
  qed
qed

text \<open>
  Claim C5 as stated has a handshake state older than 600 seconds invalid even before
  \<^verbatim>\<open>cleanOAuthStates\<close> has removed it. \<^verbatim>\<open>consumeOAuthState\<close> selects on the state alone
  and never reads \<^verbatim>\<open>created_at\<close>: a state saved at second 1000 is consumed at second 1660
  and yields its binding, and the callback that consumes it goes on to store the
  connection. It is gone only once a sweep has run in between.
\<close>

theorem aged_state_is_consumed:
  "fst (consumeOAuthState (saveOAuthState 1000 (demo_db []) ''old-state'' ''oura'' ''daniel'')
          ''old-state'')
     = Some (''oura'', ''daniel'')
   \<and> fst (consumeOAuthState
           (cleanOAuthStates 1660 (saveOAuthState 1000 (demo_db []) ''old-state'' ''oura'' ''daniel''))
           ''old-state'') = None
   \<and> fst (authCallback demo_ctx demo_registry (demo_world 1660 demo_grant)
           (saveOAuthState 1000 (demo_db []) ''old-state'' ''oura'' ''daniel'') ''oura''
           (demo_query ''code'' ''old-state''))
     = Inr (HtmlSuccess ''oura'' ''daniel'')"
proof -
  let ?d = "saveOAuthState 1000 (demo_db []) ''old-state'' ''oura'' ''daniel''"
  have c: "consumeOAuthState ?d ''old-state'' = (Some (''oura'', ''daniel''), demo_db [])"
    by (simp add: consumeOAuthState_def saveOAuthState_def demo_db_def)
  have k: "fst (consumeOAuthState (cleanOAuthStates 1660 ?d) ''old-state'') = None"
    by (simp add: consumeOAuthState_def saveOAuthState_def demo_db_def cleanOAuthStates_def)
  have st: "storeToken demo_ctx 1660 demo_nonce (demo_db []) ''oura'' ''daniel'' (js ''r2'') at ea sc
        = Inr (demo_db [\<lparr>row_id = ''oura:daniel'', row_provider = ''oura'', row_account = ''daniel'',
             refresh_token_encrypted =
               js ''0102030405060708090a0b0c:723200000000000000000000000000000000'',
             access_token = at, expires_at = ea, row_scopes = sc, created_at = 1660,
             updated_at = 1660\<rparr>])" for at ea sc
    by (simp add: storeToken_def demo_encrypt_r2 demo_db_def)
  have j: "js ''r2'' \<noteq> []" by (simp add: js_def)
  have a: "fst (authCallback demo_ctx demo_registry (demo_world 1660 demo_grant) ?d ''oura''
           (demo_query ''code'' ''old-state'')) = Inr (HtmlSuccess ''oura'' ''daniel'')"
    unfolding authCallback_def
    by (simp add: c demo_query_def truthy_def demo_registry_def demo_world_def demo_grant_def
          ok_def Let_def st j)
  show ?thesis using c k a by simp
qed

text \<open>
  Claim C5, amended. A handshake state expires by the sweep and only by the sweep. In a
  table whose states are distinct (\<^verbatim>\<open>state TEXT PRIMARY KEY\<close>), for every stored state,
  whatever its age: consuming it yields its (provider, account) binding; and after a run
  of \<^verbatim>\<open>cleanOAuthStates\<close> at time \<open>now\<close>, consuming it yields nothing if the state was
  created before \<open>now - 600\<close>, and still yields its binding otherwise.
\<close>

theorem state_expiry_by_sweep:
  assumes "distinct (map state (oauth_states d))"
    and "find (\<lambda>r. state r = s) (oauth_states d) = Some row"
  shows "fst (consumeOAuthState d s) = Some (state_provider row, state_account row)
       \<and> fst (consumeOAuthState (cleanOAuthStates now d) s)
           = (if state_created_at row < now - 600 then None
              else Some (state_provider row, state_account row))"
proof -
  have a: "fst (consumeOAuthState d s) = Some (state_provider row, state_account row)"
    using assms(2) by (simp add: consumeOAuthState_def)
  have "find (\<lambda>r. state r = s) (oauth_states (cleanOAuthStates now d))
          = (if \<not> state_created_at row < now - 600 then Some row else None)"
    unfolding cleanOAuthStates_def using find_filter_unique[OF assms] by simp
  then have b: "fst (consumeOAuthState (cleanOAuthStates now d) s)
           = (if state_created_at row < now - 600 then None
              else Some (state_provider row, state_account row))"
    by (simp add: consumeOAuthState_def)
  show ?thesis using a b by (intro conjI)
qed

text \<open>A state saved at second 1000: consumed as it is, after a sweep at second 1660, and
  after a sweep at second 1500.\<close>

theorem state_expiry_by_sweep_witness:
  "fst (consumeOAuthState (saveOAuthState 1000 (demo_db []) ''s1'' ''oura'' ''daniel'') ''s1'')
     = Some (''oura'', ''daniel'')
   \<and> fst (consumeOAuthState
            (cleanOAuthStates 1660 (saveOAuthState 1000 (demo_db []) ''s1'' ''oura'' ''daniel'')) ''s1'')
     = None
   \<and> fst (consumeOAuthState
            (cleanOAuthStates 1500 (saveOAuthState 1000 (demo_db []) ''s1'' ''oura'' ''daniel'')) ''s1'')
     = Some (''oura'', ''daniel'')"
proof -
  let ?d = "saveOAuthState 1000 (demo_db []) ''s1'' ''oura'' ''daniel''"
  let ?row = "\<lparr>state = ''s1'', state_provider = ''oura'', state_account = ''daniel'',
        state_created_at = 1000\<rparr>"
  have dist: "distinct (map state (oauth_states ?d))"
    by (simp add: saveOAuthState_def demo_db_def)
  have f: "find (\<lambda>r. state r = ''s1'') (oauth_states ?d) = Some ?row"
    by (simp add: saveOAuthState_def demo_db_def)
  show ?thesis
    using state_expiry_by_sweep[OF dist f, of 1660] state_expiry_by_sweep[OF dist f, of 1500]
    by simp
qed

text \<open>
  Claim C10 as stated has every callback for another provider that presents the state
  delete it. The handler looks at the \<^verbatim>\<open>error\<close> and \<^verbatim>\<open>code\<close> parameters before it touches
  the store: a callback for \<^verbatim>\<open>gcal\<close> that presents the state saved for \<^verbatim>\<open>oura\<close> together
  with an \<^verbatim>\<open>error\<close> parameter, or without a \<^verbatim>\<open>code\<close>, is answered with another error page
  and leaves the database as it was; the callback for \<^verbatim>\<open>oura\<close> that follows with the same
  state succeeds.
\<close>

theorem callback_wrong_provider_counterexample:
  "authCallback demo_ctx demo_registry (demo_world 1010 demo_grant)
      (saveOAuthState 1000 (demo_db []) ''s1'' ''oura'' ''daniel'') ''gcal''
      \<lparr>q_code = Some ''code'', q_state = Some ''s1'', q_error = Some ''access_denied''\<rparr>
     = (Inr (HtmlError 400 ''OAuth error: access_denied''),
        saveOAuthState 1000 (demo_db []) ''s1'' ''oura'' ''daniel'', [])
   \<and> authCallback demo_ctx demo_registry (demo_world 1010 demo_grant)
      (saveOAuthState 1000 (demo_db []) ''s1'' ''oura'' ''daniel'') ''gcal''
      \<lparr>q_code = None, q_state = Some ''s1'', q_error = None\<rparr>
     = (Inr (HtmlError 400 ''Missing code or state parameter.''),
        saveOAuthState 1000 (demo_db []) ''s1'' ''oura'' ''daniel'', [])
   \<and> fst (authCallback demo_ctx demo_registry (demo_world 1020 demo_grant)
           (saveOAuthState 1000 (demo_db []) ''s1'' ''oura'' ''daniel'') ''oura''
           (demo_query ''code'' ''s1''))
     = Inr (HtmlSuccess ''oura'' ''daniel'')"
proof -
  let ?d = "saveOAuthState 1000 (demo_db []) ''s1'' ''oura'' ''daniel''"
  have a: "authCallback demo_ctx demo_registry (demo_world 1010 demo_grant) ?d ''gcal''
      \<lparr>q_code = Some ''code'', q_state = Some ''s1'', q_error = Some ''access_denied''\<rparr>
     = (Inr (HtmlError 400 ''OAuth error: access_denied''), ?d, [])"
    by (simp add: authCallback_def truthy_def)
  have b: "authCallback demo_ctx demo_registry (demo_world 1010 demo_grant) ?d ''gcal''
      \<lparr>q_code = None, q_state = Some ''s1'', q_error = None\<rparr>
     = (Inr (HtmlError 400 ''Missing code or state parameter.''), ?d, [])"
    by (simp add: authCallback_def truthy_def)
  have c: "consumeOAuthState ?d ''s1'' = (Some (''oura'', ''daniel''), demo_db [])"
    by (simp add: consumeOAuthState_def saveOAuthState_def demo_db_def)
  have st: "storeToken demo_ctx 1020 demo_nonce (demo_db []) ''oura'' ''daniel'' (js ''r2'') at ea sc
        = Inr (demo_db [\<lparr>row_id = ''oura:daniel'', row_provider = ''oura'', row_account = ''daniel'',
             refresh_token_encrypted =
               js ''0102030405060708090a0b0c:723200000000000000000000000000000000'',
             access_token = at, expires_at = ea, row_scopes = sc, created_at = 1020,
             updated_at = 1020\<rparr>])" for at ea sc
    by (simp add: storeToken_def demo_encrypt_r2 demo_db_def)
  have j: "js ''r2'' \<noteq> []" by (simp add: js_def)
  have s: "fst (authCallback demo_ctx demo_registry (demo_world 1020 demo_grant) ?d ''oura''
           (demo_query ''code'' ''s1'')) = Inr (HtmlSuccess ''oura'' ''daniel'')"
    unfolding authCallback_def
    by (simp add: c demo_query_def truthy_def demo_registry_def demo_world_def demo_grant_def
          ok_def Let_def st j)
  show ?thesis by (intro conjI) (rule a, rule b, rule s)
qed

text \<open>
  Claim C10, amended. Let a handshake state \<open>s\<close> be stored and bound to provider \<open>p\<close>. A
  callback for another provider \<open>q\<close> that presents \<open>s\<close> with a non-empty code and no error
  parameter is answered with the invalid-state page, makes no outbound call, and leaves a
  database in which \<open>s\<close> no longer exists; a later callback for the right provider \<open>p\<close>
  with the same state, again with a non-empty code and no error parameter, whatever the
  code and whatever the world does, gets the invalid-state page too. A callback for \<open>q\<close>
  that carries an error parameter or lacks a code is answered with the page for that
  error, makes no outbound call and leaves the database, and with it the state, as it
  was.
\<close>

theorem callback_wrong_provider:
  assumes "find (\<lambda>r. state r = s) (oauth_states d) = Some row" "state_provider row = p"
    and "q \<noteq> p" and "c \<noteq> []" "s \<noteq> []" "c' \<noteq> []" "\<not> truthy e" "\<not> truthy e'"
  shows "(\<exists>d1. authCallback K reg W d q \<lparr>q_code = Some c, q_state = Some s, q_error = e\<rparr>
           = (Inr (HtmlError 400 ''Invalid or expired state. Please try again.''), d1, [])
       \<and> find (\<lambda>r. state r = s) (oauth_states d1) = None
       \<and> authCallback K reg W' d1 p \<lparr>q_code = Some c', q_state = Some s, q_error = e'\<rparr>
           = (Inr (HtmlError 400 ''Invalid or expired state. Please try again.''), d1, []))
     \<and> (\<forall>qr. truthy (q_error qr) \<or> \<not> truthy (q_code qr) \<longrightarrow>
           authCallback K reg W d q qr
             = (Inr (HtmlError 400
                      (if truthy (q_error qr) then ''OAuth error: '' @ the (q_error qr)
                       else ''Missing code or state parameter.'')), d, []))"
proof -
  let ?d1 = "d\<lparr>oauth_states := filter (\<lambda>r. state r \<noteq> s) (oauth_states d)\<rparr>"
  have c1: "consumeOAuthState d s = (Some (p, state_account row), ?d1)"
    using assms(1,2) by (simp add: consumeOAuthState_def)
  have gone: "find (\<lambda>r. state r = s) (oauth_states ?d1) = None"
    by (simp add: find_filter_neq)
  have c2: "consumeOAuthState ?d1 s = (None, ?d1)"
    using gone by (rule consume_absent)
  have a1: "authCallback K reg W d q \<lparr>q_code = Some c, q_state = Some s, q_error = e\<rparr>
           = (Inr (HtmlError 400 ''Invalid or expired state. Please try again.''), ?d1, [])"
    using assms(3-8) c1 by (simp add: authCallback_def truthy_def)
  have a2: "authCallback K reg W' ?d1 p \<lparr>q_code = Some c', q_state = Some s, q_error = e'\<rparr>
           = (Inr (HtmlError 400 ''Invalid or expired state. Please try again.''), ?d1, [])"
    using assms(3-8) c2 by (simp add: authCallback_def truthy_def)
  have first: "\<exists>d1. authCallback K reg W d q \<lparr>q_code = Some c, q_state = Some s, q_error = e\<rparr>
           = (Inr (HtmlError 400 ''Invalid or expired state. Please try again.''), d1, [])
       \<and> find (\<lambda>r. state r = s) (oauth_states d1) = None
       \<and> authCallback K reg W' d1 p \<lparr>q_code = Some c', q_state = Some s, q_error = e'\<rparr>
           = (Inr (HtmlError 400 ''Invalid or expired state. Please try again.''), d1, [])"
    by (intro exI[of _ ?d1] conjI) (rule a1, rule gone, rule a2)
  have early: "\<forall>qr. truthy (q_error qr) \<or> \<not> truthy (q_code qr) \<longrightarrow>
           authCallback K reg W d q qr
             = (Inr (HtmlError 400
                      (if truthy (q_error qr) then ''OAuth error: '' @ the (q_error qr)
                       else ''Missing code or state parameter.'')), d, [])"
    by (simp add: authCallback_def)
  show ?thesis by (intro conjI) (rule first, rule early)
qed

text \<open>A state saved for \<^verbatim>\<open>oura\<close>, presented first to the callback of \<^verbatim>\<open>gcal\<close> and then to
  the callback of \<^verbatim>\<open>oura\<close>; and the same state presented to the callback of \<^verbatim>\<open>gcal\<close>
  with an error parameter, or without a code.\<close>

theorem callback_wrong_provider_witness:
  "(\<exists>d1. authCallback demo_ctx demo_registry (demo_world 1010 demo_grant)
            (saveOAuthState 1000 (demo_db []) ''s1'' ''oura'' ''daniel'') ''gcal''
            (demo_query ''code'' ''s1'')
           = (Inr (HtmlError 400 ''Invalid or expired state. Please try again.''), d1, [])
       \<and> find (\<lambda>r. state r = ''s1'') (oauth_states d1) = None
       \<and> authCallback demo_ctx demo_registry (demo_world 1020 demo_grant) d1 ''oura''
            (demo_query ''code'' ''s1'')
           = (Inr (HtmlError 400 ''Invalid or expired state. Please try again.''), d1, []))
   \<and> authCallback demo_ctx demo_registry (demo_world 1010 demo_grant)
        (saveOAuthState 1000 (demo_db []) ''s1'' ''oura'' ''daniel'') ''gcal''
        \<lparr>q_code = Some ''code'', q_state = Some ''s1'', q_error = Some ''denied''\<rparr>
       = (Inr (HtmlError 400 ''OAuth error: denied''),
          saveOAuthState 1000 (demo_db []) ''s1'' ''oura'' ''daniel'', [])
   \<and> authCallback demo_ctx demo_registry (demo_world 1010 demo_grant)
        (saveOAuthState 1000 (demo_db []) ''s1'' ''oura'' ''daniel'') ''gcal''
        \<lparr>q_code = None, q_state = Some ''s1'', q_error = None\<rparr>
       = (Inr (HtmlError 400 ''Missing code or state parameter.''),
          saveOAuthState 1000 (demo_db []) ''s1'' ''oura'' ''daniel'', [])"
proof -
  let ?d = "saveOAuthState 1000 (demo_db []) ''s1'' ''oura'' ''daniel''"
  have f: "find (\<lambda>r. state r = ''s1'') (oauth_states ?d)
             = Some \<lparr>state = ''s1'', state_provider = ''oura'', state_account = ''daniel'',
                     state_created_at = 1000\<rparr>"
    by (simp add: saveOAuthState_def demo_db_def)
  have p: "state_provider \<lparr>state = ''s1'', state_provider = ''oura'', state_account = ''daniel'',
                     state_created_at = 1000\<rparr> = ''oura''" by simp
  have ne: "''gcal'' \<noteq> ''oura''" "''code'' \<noteq> []" "''s1'' \<noteq> []" by simp_all
  have nt: "\<not> truthy (None :: string option)" by (simp add: truthy_def)
  note th = callback_wrong_provider[OF f p ne(1) ne(2) ne(3) ne(2) nt nt,
      of demo_ctx demo_registry "demo_world 1010 demo_grant" "demo_world 1020 demo_grant"]
  have a: "\<exists>d1. authCallback demo_ctx demo_registry (demo_world 1010 demo_grant) ?d ''gcal''
            (demo_query ''code'' ''s1'')
           = (Inr (HtmlError 400 ''Invalid or expired state. Please try again.''), d1, [])
       \<and> find (\<lambda>r. state r = ''s1'') (oauth_states d1) = None
       \<and> authCallback demo_ctx demo_registry (demo_world 1020 demo_grant) d1 ''oura''
            (demo_query ''code'' ''s1'')
           = (Inr (HtmlError 400 ''Invalid or expired state. Please try again.''), d1, [])"
    using th[THEN conjunct1] unfolding demo_query_def .
  have b: "authCallback demo_ctx demo_registry (demo_world 1010 demo_grant) ?d ''gcal''
        \<lparr>q_code = Some ''code'', q_state = Some ''s1'', q_error = Some ''denied''\<rparr>
       = (Inr (HtmlError 400 ''OAuth error: denied''), ?d, [])"
    using th[THEN conjunct2, THEN spec,
        of "\<lparr>q_code = Some ''code'', q_state = Some ''s1'', q_error = Some ''denied''\<rparr>"]
    by (simp add: truthy_def)
  have c: "authCallback demo_ctx demo_registry (demo_world 1010 demo_grant) ?d ''gcal''
        \<lparr>q_code = None, q_state = Some ''s1'', q_error = None\<rparr>
       = (Inr (HtmlError 400 ''Missing code or state parameter.''), ?d, [])"
    using th[THEN conjunct2, THEN spec,
        of "\<lparr>q_code = None, q_state = Some ''s1'', q_error = None\<rparr>"]
    by (simp add: truthy_def)
  show ?thesis by (intro conjI) (rule a, rule b, rule c)
qed

section \<open>The refresh loop\<close>

lemma next_pending_keeps:
  "t \<in> set ts \<Longrightarrow> reg (provider t) \<noteq> None \<Longrightarrow> t \<in> set (next_pending reg ts)"
  by (induction ts) (auto split: option.splits)

lemma runRefreshCycle_idle:
  "runRefreshCycle K reg now s =
     (case runRefreshCycle K reg now (s\<lparr>cycles := []\<rparr>) of
        Inl e \<Rightarrow> Inl e
      | Inr s0 \<Rightarrow> Inr (s\<lparr>cycles := cycles s @ cycles s0\<rparr>))"
  by (simp add: runRefreshCycle_def split: sum.splits list.splits)

text \<open>
  Claim C9 as stated makes a tick a no-op while a cycle is in flight. The loop is started
  at second 4500 over a token that expires at second 5000; the cycle it starts is waiting
  for the token endpoint when the timer fires 300 seconds later. The tick is not a no-op:
  it starts a second cycle on the same \<^verbatim>\<open>oura/daniel\<close> record.
\<close>

theorem overlapping_cycles_counterexample:
  "startRefreshLoop demo_ctx demo_registry 4500 demo_sched = Inr demo_started
   \<and> cycles demo_started = [[demo_token]]
   \<and> timer_tick demo_ctx demo_registry 4800 demo_started \<noteq> Inr demo_started
   \<and> run demo_ctx demo_registry demo_sched [Start 4500, Tick 4800]
       = Inr \<lparr>timer = True, cycles = [[demo_token], [demo_token]],
              store = demo_db [demo_row ''oura'' ''daniel'']\<rparr>"
proof -
  have c: "cycles demo_started = [[demo_token]]" by (simp add: demo_started_def)
  have n: "timer_tick demo_ctx demo_registry 4800 demo_started \<noteq> Inr demo_started"
    unfolding demo_tick by (simp add: demo_started_def)
  have r: "run demo_ctx demo_registry demo_sched [Start 4500, Tick 4800]
       = Inr \<lparr>timer = True, cycles = [[demo_token], [demo_token]],
              store = demo_db [demo_row ''oura'' ''daniel'']\<rparr>"
    by (simp add: demo_start demo_tick)
  show ?thesis by (intro conjI) (rule demo_start, rule c, rule n, rule r)
qed

text \<open>
  Claim C9, amended. The refresh scheduler keeps a single timer: \<^verbatim>\<open>startRefreshLoop\<close> does
  nothing while a timer is installed. A tick does not look at the cycles in flight: it
  does exactly what it would do with none in flight (including ending the process when
  the store throws) and leaves those in flight as they are. So whenever, at a tick, the
  store lists a record with a registered provider as needing refresh, the tick starts a
  new cycle beside the cycles in flight, and that cycle includes every such record,
  whether or not a cycle in flight is already refreshing it.
\<close>

theorem tick_ignores_cycles_in_flight:
  "(timer s \<longrightarrow> startRefreshLoop K reg now s = Inr s)
   \<and> timer_tick K reg now s =
       (case timer_tick K reg now (s\<lparr>cycles := []\<rparr>) of
          Inl e \<Rightarrow> Inl e
        | Inr s0 \<Rightarrow> Inr (s\<lparr>cycles := cycles s @ cycles s0\<rparr>))
   \<and> (\<forall>tokens t. timer s
          \<and> getTokensNeedingRefresh K now (store s) REFRESH_THRESHOLD_SEC = Inr tokens
          \<and> t \<in> set tokens \<and> reg (provider t) \<noteq> None
        \<longrightarrow> t \<in> set (next_pending reg tokens)
            \<and> timer_tick K reg now s = Inr (s\<lparr>cycles := cycles s @ [next_pending reg tokens]\<rparr>))"
proof -
  have a: "timer s \<longrightarrow> startRefreshLoop K reg now s = Inr s"
    by (simp add: startRefreshLoop_def)
  have b: "timer_tick K reg now s =
       (case timer_tick K reg now (s\<lparr>cycles := []\<rparr>) of
          Inl e \<Rightarrow> Inl e
        | Inr s0 \<Rightarrow> Inr (s\<lparr>cycles := cycles s @ cycles s0\<rparr>))"
  proof (cases "timer s")
    case True
    then show ?thesis
      using runRefreshCycle_idle[of K reg now s] by (simp add: timer_tick_def)
  next
    case False
    then show ?thesis by (simp add: timer_tick_def)
  qed
  have c: "t \<in> set (next_pending reg tokens)
            \<and> timer_tick K reg now s = Inr (s\<lparr>cycles := cycles s @ [next_pending reg tokens]\<rparr>)"
    if h: "timer s \<and> getTokensNeedingRefresh K now (store s) REFRESH_THRESHOLD_SEC = Inr tokens
          \<and> t \<in> set tokens \<and> reg (provider t) \<noteq> None" for tokens t
  proof -
    have m: "t \<in> set (next_pending reg tokens)"
      using h by (simp add: next_pending_keeps)
    then obtain u us where np: "next_pending reg tokens = u # us"
      by (cases "next_pending reg tokens") auto
    have "timer_tick K reg now s = Inr (s\<lparr>cycles := cycles s @ [u # us]\<rparr>)"
      using h np by (simp add: timer_tick_def runRefreshCycle_def)
    then show ?thesis using m np by simp
  qed
  have c': "\<forall>tokens t. timer s
          \<and> getTokensNeedingRefresh K now (store s) REFRESH_THRESHOLD_SEC = Inr tokens
          \<and> t \<in> set tokens \<and> reg (provider t) \<noteq> None
        \<longrightarrow> t \<in> set (next_pending reg tokens)
            \<and> timer_tick K reg now s = Inr (s\<lparr>cycles := cycles s @ [next_pending reg tokens]\<rparr>)"
    by (intro allI impI) (rule c)
  show ?thesis by (intro conjI) (rule a, rule b, rule c')
qed

text \<open>The loop started at second 4500, its first cycle still waiting on \<^verbatim>\<open>oura/daniel\<close>:
  a second start, and the tick at second 4800.\<close>

theorem tick_ignores_cycles_in_flight_witness:
  "startRefreshLoop demo_ctx demo_registry 4800 demo_started = Inr demo_started
   \<and> cycles demo_started = [[demo_token]]
   \<and> demo_token \<in> set (next_pending demo_registry [demo_token])
   \<and> timer_tick demo_ctx demo_registry 4800 demo_started
       = Inr (demo_started\<lparr>cycles := [[demo_token], [demo_token]]\<rparr>)"
proof -
  note th = tick_ignores_cycles_in_flight[of demo_started demo_ctx demo_registry 4800]
  have t: "timer demo_started" by (simp add: demo_started_def)
  have cy: "cycles demo_started = [[demo_token]]" by (simp add: demo_started_def)
  have a: "startRefreshLoop demo_ctx demo_registry 4800 demo_started = Inr demo_started"
    using th[THEN conjunct1] t by simp
  have g: "getTokensNeedingRefresh demo_ctx 4800 (store demo_started) REFRESH_THRESHOLD_SEC
             = Inr [demo_token]"
    using demo_needing_refresh[of 4800] by (simp add: demo_started_def)
  have k: "demo_registry (provider demo_token) = Some demo_cfg"
    by (simp add: demo_registry_def demo_token_def)
  have np: "next_pending demo_registry [demo_token] = [demo_token]"
    using k by simp
  have both: "demo_token \<in> set (next_pending demo_registry [demo_token])
        \<and> timer_tick demo_ctx demo_registry 4800 demo_started
          = Inr (demo_started\<lparr>cycles := cycles demo_started @ [next_pending demo_registry [demo_token]]\<rparr>)"
    using th[THEN conjunct2, THEN conjunct2, THEN spec, THEN spec, of "[demo_token]" demo_token] t g k
    by simp
  have m: "demo_token \<in> set (next_pending demo_registry [demo_token])"
    using both by (rule conjunct1)
  have "timer_tick demo_ctx demo_registry 4800 demo_started
          = Inr (demo_started\<lparr>cycles := cycles demo_started @ [next_pending demo_registry [demo_token]]\<rparr>)"
    using both by (rule conjunct2)
  then have b: "timer_tick demo_ctx demo_registry 4800 demo_started
       = Inr (demo_started\<lparr>cycles := [[demo_token], [demo_token]]\<rparr>)"
    unfolding np cy by simp
  show ?thesis by (intro conjI) (rule a, rule cy, rule m, rule b)
qed

section \<open>Upsert and partial update\<close>



section \<open>The proxy handler: refresh\<close>

text \<open>
  Claim C1. Whenever the handler has resolved a token record and decides to refresh it,
  and the token endpoint cannot be reached or answers with a status outside 200 to 299,
  the handler replies 401 \<^verbatim>\<open>TokenRefreshFailed\<close>, returns the database it was given (no
  write: the record keeps its old access token and expiry) and has made the token
  request as its only outbound call.
\<close>

theorem refresh_failure_leaves_store:
  assumes "reg (param_provider rq) = Some cfg"
    and "loadToken K d (param_provider rq) (query_account rq) = Inr (Some tok, acct)"
    and "shouldRefresh tok (now_handler W)"
    and "call = RefreshGrant (token_url cfg) (refreshToken tok) (client_id cfg) (client_secret cfg)"
    and "token_endpoint W call = NetworkError
         \<or> (\<exists>status body. token_endpoint W call = HttpResponse status body \<and> \<not> ok status)"
  shows "proxyHandler K reg W d rq = (Inr (JsonError 401 ''TokenRefreshFailed''), d, [TokenCall call])"
proof -
  have "refreshAccessToken W call = None"
    using assms(5) by (auto simp: refreshAccessToken_def)
  then show ?thesis
    using assms(1-4) by (simp add: proxyHandler_def Let_def)
qed

text \<open>A token that expires at second 5000, requested at second 4900; the token endpoint
  answers 400, or is unreachable.\<close>

theorem refresh_failure_leaves_store_witness:
  "proxyHandler demo_ctx demo_registry (demo_world 4900 (HttpResponse 400 None))
      (demo_db [demo_row ''oura'' ''daniel'']) demo_request
   = (Inr (JsonError 401 ''TokenRefreshFailed''), demo_db [demo_row ''oura'' ''daniel''],
      [TokenCall (RefreshGrant ''https://api.ouraring.com/oauth/token'' (js ''r1'') ''id'' ''secret'')])
   \<and> proxyHandler demo_ctx demo_registry (demo_world 4900 NetworkError)
      (demo_db [demo_row ''oura'' ''daniel'']) demo_request
   = (Inr (JsonError 401 ''TokenRefreshFailed''), demo_db [demo_row ''oura'' ''daniel''],
      [TokenCall (RefreshGrant ''https://api.ouraring.com/oauth/token'' (js ''r1'') ''id'' ''secret'')])"
proof -
  let ?call = "RefreshGrant ''https://api.ouraring.com/oauth/token'' (js ''r1'') ''id'' ''secret''"
  have r: "demo_registry (param_provider demo_request) = Some demo_cfg"
    by (simp add: demo_registry_def demo_request_def)
  have l: "loadToken demo_ctx (demo_db [demo_row ''oura'' ''daniel'']) (param_provider demo_request)
             (query_account demo_request) = Inr (Some demo_token, ''daniel'')"
    using demo_loadToken by (simp add: demo_request_def)
  have s: "shouldRefresh demo_token (now_handler (demo_world 4900 res))" for res
    by (simp add: shouldRefresh_def demo_token_def demo_world_def)
  have c: "?call = RefreshGrant (token_url demo_cfg) (refreshToken demo_token) (client_id demo_cfg)
                     (client_secret demo_cfg)"
    by (simp add: demo_cfg_def demo_token_def)
  have f1: "token_endpoint (demo_world 4900 (HttpResponse 400 None)) ?call = NetworkError
         \<or> (\<exists>status body. token_endpoint (demo_world 4900 (HttpResponse 400 None)) ?call
               = HttpResponse status body \<and> \<not> ok status)"
    by (simp add: demo_world_def ok_def)
  have f2: "token_endpoint (demo_world 4900 NetworkError) ?call = NetworkError
         \<or> (\<exists>status body. token_endpoint (demo_world 4900 NetworkError) ?call
               = HttpResponse status body \<and> \<not> ok status)"
    by (simp add: demo_world_def)
  show ?thesis
    using refresh_failure_leaves_store[where reg=demo_registry and rq=demo_request
        and W="demo_world 4900 (HttpResponse 400 None)", OF r l s c f1]
      refresh_failure_leaves_store[where reg=demo_registry and rq=demo_request
        and W="demo_world 4900 NetworkError", OF r l s c f2]
    by (intro conjI)
qed

lemma performs_refresh_iff:
  assumes "reg (param_provider rq) = Some cfg"
    and "loadToken K d (param_provider rq) (query_account rq) = Inr (Some tok, acct)"
  shows "performs_refresh K reg W d rq \<longleftrightarrow> shouldRefresh tok (now_handler W)"
  using assms
  by (simp add: performs_refresh_def proxyHandler_def Let_def split: option.splits prod.splits)

lemma shouldRefresh_iff:
  "shouldRefresh tok now \<longleftrightarrow>
     accessToken tok = None \<or> accessToken tok = Some [] \<or> (\<exists>e. expiresAt tok = Some e \<and> e - now < 300)"
  by (auto simp: shouldRefresh_def truthy_def split: option.splits)

text \<open>
  Claim C2 as stated says that the refresh happens if and only if the access token is
  absent or the expiry is set and less than 300 seconds away. A record whose access token
  is the empty string and which expires in 3600 seconds is refreshed all the same: the
  test \<^verbatim>\<open>!tokenRecord.accessToken\<close> holds for the empty string as it does for
  \<^verbatim>\<open>null\<close>.
\<close>

theorem refresh_trigger_counterexample:
  "loadToken demo_ctx (demo_db [demo_row_empty]) (param_provider demo_request)
       (query_account demo_request)
     = Inr (Some (demo_token\<lparr>accessToken := Some [], expiresAt := Some 4600\<rparr>), ''daniel'')
   \<and> performs_refresh demo_ctx demo_registry (demo_world 1000 demo_grant) (demo_db [demo_row_empty])
         demo_request
   \<and> \<not> (accessToken (demo_token\<lparr>accessToken := Some [], expiresAt := Some 4600\<rparr>) = None
          \<or> (expiresAt (demo_token\<lparr>accessToken := Some [], expiresAt := Some 4600\<rparr>) \<noteq> None
              \<and> the (expiresAt (demo_token\<lparr>accessToken := Some [], expiresAt := Some 4600\<rparr>)) - 1000 < 300))"
proof -
  have l: "loadToken demo_ctx (demo_db [demo_row_empty]) (param_provider demo_request)
       (query_account demo_request)
     = Inr (Some (demo_token\<lparr>accessToken := Some [], expiresAt := Some 4600\<rparr>), ''daniel'')"
    using demo_loadToken_empty by (simp add: demo_request_def)
  have r: "demo_registry (param_provider demo_request) = Some demo_cfg"
    by (simp add: demo_registry_def demo_request_def)
  have "performs_refresh demo_ctx demo_registry (demo_world 1000 demo_grant) (demo_db [demo_row_empty])
         demo_request"
    unfolding performs_refresh_iff[where reg=demo_registry and rq=demo_request, OF r l]
    by (simp add: shouldRefresh_def truthy_def)
  then show ?thesis using l by simp
qed

text \<open>
  Claim C2, amended. For a resolved token record, the handler performs a refresh exchange
  if and only if the access token is absent or empty, or the expiry is set and
  \<open>expiresAt - now < 300\<close>. So a record that expires at \<open>now + 100\<close> is refreshed, a
  record without access token is refreshed whatever its expiry, and a record with a
  non-empty access token that expires at \<open>now + 3600\<close> is not.
\<close>

theorem refresh_trigger:
  assumes "reg (param_provider rq) = Some cfg"
    and "loadToken K d (param_provider rq) (query_account rq) = Inr (Some tok, acct)"
  shows "(performs_refresh K reg W d rq \<longleftrightarrow>
            accessToken tok = None \<or> accessToken tok = Some []
            \<or> (\<exists>e. expiresAt tok = Some e \<and> e - now_handler W < 300))
       \<and> (expiresAt tok = Some (now_handler W + 100) \<longrightarrow> performs_refresh K reg W d rq)
       \<and> (accessToken tok = None \<longrightarrow> performs_refresh K reg W d rq)
       \<and> (\<forall>a. accessToken tok = Some a \<and> a \<noteq> [] \<and> expiresAt tok = Some (now_handler W + 3600)
              \<longrightarrow> \<not> performs_refresh K reg W d rq)"
  unfolding performs_refresh_iff[where reg=reg and rq=rq and cfg=cfg and K=K and d=d and tok=tok
      and acct=acct, OF assms] shouldRefresh_iff by auto

text \<open>The token expiring at second 5000: refreshed at second 4900, not at second 1400.\<close>

theorem refresh_trigger_witness:
  "performs_refresh demo_ctx demo_registry (demo_world 4900 demo_grant)
      (demo_db [demo_row ''oura'' ''daniel'']) demo_request
   \<and> \<not> performs_refresh demo_ctx demo_registry (demo_world 1400 demo_grant)
      (demo_db [demo_row ''oura'' ''daniel'']) demo_request"
proof -
  have r: "demo_registry (param_provider demo_request) = Some demo_cfg"
    by (simp add: demo_registry_def demo_request_def)
  have l: "loadToken demo_ctx (demo_db [demo_row ''oura'' ''daniel'']) (param_provider demo_request)
             (query_account demo_request) = Inr (Some demo_token, ''daniel'')"
    using demo_loadToken by (simp add: demo_request_def)
  note t = refresh_trigger[where reg=demo_registry and rq=demo_request, OF r l]
  have a: "performs_refresh demo_ctx demo_registry (demo_world 4900 demo_grant)
      (demo_db [demo_row ''oura'' ''daniel'']) demo_request"
    using t[of "demo_world 4900 demo_grant"] by (simp add: demo_token_def demo_world_def)
  have b: "\<not> performs_refresh demo_ctx demo_registry (demo_world 1400 demo_grant)
      (demo_db [demo_row ''oura'' ''daniel'']) demo_request"
    using t[of "demo_world 1400 demo_grant"] by (simp add: demo_token_def demo_world_def)
  show ?thesis using a b by (intro conjI)
qed


section \<open>The proxy handler: forwarded headers\<close>

lemma map_of_copyHeaders:
  "distinct (map fst hs) \<Longrightarrow>
   map_of (copyHeaders hs fh) k =
     (if toLowerCase k \<in> HOP_BY_HOP_HEADERS then map_of fh k
      else (case inbound hs k of None \<Rightarrow> map_of fh k | Some s \<Rightarrow> Some s))"
proof (induction hs arbitrary: fh)
  case Nil
  then show ?case by (simp add: inbound_def)
next
  case (Cons e es)
  obtain k' v where e: "e = (k', v)" by (cases e)
  have d: "distinct (map fst es)" and notin: "k' \<notin> fst ` set es" using Cons.prems e by auto
  have none: "map_of es k' = None" using notin by (simp add: map_of_eq_None_iff)
  note IH = Cons.IH[OF d]
  show ?case
  proof (cases "toLowerCase k' \<in> HOP_BY_HOP_HEADERS")
    case True
    then show ?thesis using IH[of fh] e by (auto simp: inbound_def)
  next
    case False
    show ?thesis
    proof (cases v)
      case (HString s)
      then show ?thesis using IH[of "AList.update k' s fh"] e False none
        by (auto simp: inbound_def update_conv' split: option.splits)
    next
      case (HArray vs)
      then show ?thesis using IH[of "AList.update k' (join '', '' vs) fh"] e False none
        by (auto simp: inbound_def update_conv' split: option.splits)
    next
      case HUndefined
      then show ?thesis using IH[of fh] e False none
        by (auto simp: inbound_def)
    qed
  qed
qed

lemma distinct_copyHeaders:
  "distinct (map fst fh) \<Longrightarrow> distinct (map fst (copyHeaders hs fh))"
proof (induction hs arbitrary: fh)
  case Nil
  then show ?case by simp
next
  case (Cons e es)
  obtain k' v where e: "e = (k', v)" by (cases e)
  show ?case using Cons e by (cases v) (auto simp: distinct_update)
qed

lemma authorization_excluded: "''authorization'' \<in> HOP_BY_HOP_HEADERS"
  by (simp add: HOP_BY_HOP_HEADERS_def)

lemma map_of_forwardHeaders:
  assumes "distinct (map fst hs)" "accessToken tok = Some a"
  shows "map_of (forwardHeaders hs tok) k =
     (if k = ''authorization'' then Some (''Bearer '' @ a)
      else if toLowerCase k \<in> HOP_BY_HOP_HEADERS then None
      else inbound hs k)"
  using assms
  by (simp add: forwardHeaders_def update_conv' map_of_copyHeaders split: option.splits)

lemma forwardHeaders_authorization:
  assumes "distinct (map fst hs)" "accessToken tok = Some a"
    and "(k, v) \<in> set (forwardHeaders hs tok)" "toLowerCase k = ''authorization''"
  shows "k = ''authorization'' \<and> v = ''Bearer '' @ a"
proof -
  have "distinct (map fst (forwardHeaders hs tok))"
    unfolding forwardHeaders_def by (intro distinct_update distinct_copyHeaders) simp
  then have "map_of (forwardHeaders hs tok) k = Some v"
    using assms(3) by simp
  then show ?thesis
    unfolding map_of_forwardHeaders[OF assms(1,2)] using assms(4) authorization_excluded
    by (auto split: if_splits)
qed

lemma proxyHandler_upstream:
  assumes "proxyHandler K reg W d rq = (res, d', calls)" "UpstreamCall u \<in> set calls"
  shows "\<exists>cfg tok acct a.
           reg (param_provider rq) = Some cfg
         \<and> loadToken K d (param_provider rq) (query_account rq) = Inr (Some tok, acct)
         \<and> (if shouldRefresh tok (now_handler W)
            then (\<exists>ea. refreshAccessToken W
                          (RefreshGrant (token_url cfg) (refreshToken tok) (client_id cfg)
                             (client_secret cfg)) = Some (a, ea)
                      \<and> u = upstreamRequest cfg rq (tok\<lparr>accessToken := Some a, expiresAt := Some ea\<rparr>))
            else accessToken tok = Some a \<and> a \<noteq> [] \<and> u = upstreamRequest cfg rq tok)"
  using assms
  by (auto simp: proxyHandler_def Let_def shouldRefresh_def truthy_def
      split: option.splits sum.splits prod.splits if_splits)

text \<open>
  Claim C7. Take any run of the handler on a request whose header object has each name
  once, and any request \<open>u\<close> that the run sends upstream. Let \<open>a\<close> be the access token of
  the resolved record: the stored one if no refresh was due, the one just obtained
  otherwise. Then the headers of \<open>u\<close>, as a map, are: \<^verbatim>\<open>authorization\<close> is \<open>Bearer a\<close>;
  every other name whose lower case is in the exclusion set is absent; every remaining
  name has its inbound value. No header of \<open>u\<close> whose name is \<^verbatim>\<open>authorization\<close> in any
  spelling is other than that one, so what the caller sent under that name is not
  forwarded.
\<close>

theorem forwarded_headers:
  assumes "distinct (map fst (req_headers rq))"
    and "proxyHandler K reg W d rq = (res, d', calls)"
    and "UpstreamCall u \<in> set calls"
  shows "\<exists>cfg tok acct a.
           reg (param_provider rq) = Some cfg
         \<and> loadToken K d (param_provider rq) (query_account rq) = Inr (Some tok, acct)
         \<and> (if shouldRefresh tok (now_handler W)
            then (\<exists>ea. refreshAccessToken W
                          (RefreshGrant (token_url cfg) (refreshToken tok) (client_id cfg)
                             (client_secret cfg)) = Some (a, ea))
            else accessToken tok = Some a)
         \<and> (\<forall>k. map_of (up_headers u) k =
                  (if k = ''authorization'' then Some (''Bearer '' @ a)
                   else if toLowerCase k \<in> HOP_BY_HOP_HEADERS then None
                   else inbound (req_headers rq) k))
         \<and> (\<forall>(k, v) \<in> set (up_headers u).
                toLowerCase k = ''authorization'' \<longrightarrow> k = ''authorization'' \<and> v = ''Bearer '' @ a)"
proof -
  from proxyHandler_upstream[OF assms(2,3)]
  obtain cfg tok acct a where
      r: "reg (param_provider rq) = Some cfg"
    and l: "loadToken K d (param_provider rq) (query_account rq) = Inr (Some tok, acct)"
    and c: "if shouldRefresh tok (now_handler W)
            then (\<exists>ea. refreshAccessToken W
                          (RefreshGrant (token_url cfg) (refreshToken tok) (client_id cfg)
                             (client_secret cfg)) = Some (a, ea)
                      \<and> u = upstreamRequest cfg rq (tok\<lparr>accessToken := Some a, expiresAt := Some ea\<rparr>))
            else accessToken tok = Some a \<and> a \<noteq> [] \<and> u = upstreamRequest cfg rq tok"
    by (elim exE conjE)
  have "\<exists>tok'. accessToken tok' = Some a \<and> up_headers u = forwardHeaders (req_headers rq) tok'"
  proof (cases "shouldRefresh tok (now_handler W)")
    case True
    then obtain ea where "u = upstreamRequest cfg rq (tok\<lparr>accessToken := Some a, expiresAt := Some ea\<rparr>)"
      using c by auto
    then show ?thesis
      by (intro exI[of _ "tok\<lparr>accessToken := Some a, expiresAt := Some ea\<rparr>"])
         (simp add: upstreamRequest_def)
  next
    case False
    then show ?thesis using c by (auto simp: upstreamRequest_def)
  qed
  then obtain tok' where t': "accessToken tok' = Some a"
    and h: "up_headers u = forwardHeaders (req_headers rq) tok'" by (elim exE conjE)
  have m: "\<forall>k. map_of (up_headers u) k =
                  (if k = ''authorization'' then Some (''Bearer '' @ a)
                   else if toLowerCase k \<in> HOP_BY_HOP_HEADERS then None
                   else inbound (req_headers rq) k)"
    unfolding h using map_of_forwardHeaders[OF assms(1) t'] by (intro allI)
  have n: "\<forall>(k, v) \<in> set (up_headers u).
                toLowerCase k = ''authorization'' \<longrightarrow> k = ''authorization'' \<and> v = ''Bearer '' @ a"
    unfolding h using forwardHeaders_authorization[OF assms(1) t'] by fast
  have c': "if shouldRefresh tok (now_handler W)
            then (\<exists>ea. refreshAccessToken W
                          (RefreshGrant (token_url cfg) (refreshToken tok) (client_id cfg)
                             (client_secret cfg)) = Some (a, ea))
            else accessToken tok = Some a"
    using c by (auto split: if_splits)
  show ?thesis
    by (intro exI[of _ cfg] exI[of _ tok] exI[of _ acct] exI[of _ a] conjI)
       (rule r, rule l, rule c', rule m, rule n)
qed

lemma demo_proxy_run:
  "proxyHandler demo_ctx demo_registry (demo_world 1400 demo_grant)
      (demo_db [demo_row ''oura'' ''daniel'']) demo_request
   = (Inr (Proxied 200 [(''content-type'', ''application/json'')] ''{}''),
      demo_db [demo_row ''oura'' ''daniel''],
      [UpstreamCall \<lparr>up_url = ''https://api.ouraring.com/v2/sleep'',
                      up_query = [(''day'', ''2024-01-01'')], up_method = ''GET'',
                      up_headers = [(''accept'', ''text/plain, application/json''), (''x-trace'', ''t1''),
                                    (''authorization'', ''Bearer a1'')],
                      up_body = None\<rparr>])"
proof -
  have r: "demo_registry (param_provider demo_request) = Some demo_cfg"
    by (simp add: demo_registry_def demo_request_def)
  have l: "loadToken demo_ctx (demo_db [demo_row ''oura'' ''daniel'']) (param_provider demo_request)
             (query_account demo_request) = Inr (Some demo_token, ''daniel'')"
    using demo_loadToken by (simp add: demo_request_def)
  have s: "\<not> shouldRefresh demo_token (now_handler (demo_world 1400 demo_grant))"
    by (simp add: shouldRefresh_def demo_token_def demo_world_def truthy_def)
  have h: "forwardHeaders (req_headers demo_request) demo_token
          = [(''accept'', ''text/plain, application/json''), (''x-trace'', ''t1''),
             (''authorization'', ''Bearer a1'')]"
    by (simp add: forwardHeaders_def demo_request_def demo_token_def toLowerCase_def lower_char_def
          HOP_BY_HOP_HEADERS_def char_of_eq_iff)
  have u: "upstreamRequest demo_cfg demo_request demo_token
          = \<lparr>up_url = ''https://api.ouraring.com/v2/sleep'',
                      up_query = [(''day'', ''2024-01-01'')], up_method = ''GET'',
                      up_headers = [(''accept'', ''text/plain, application/json''), (''x-trace'', ''t1''),
                                    (''authorization'', ''Bearer a1'')],
                      up_body = None\<rparr>"
    unfolding upstreamRequest_def h
    by (simp add: demo_cfg_def demo_request_def request_query_def toUpperCase_def upper_char_def
          char_of_eq_iff)
  show ?thesis
    unfolding proxyHandler_def r l using s
    by (simp add: Let_def u forward_def demo_world_def toLowerCase_def lower_char_def
          SKIP_RESPONSE_HEADERS_def char_of_eq_iff)
qed

text \<open>The request of \<open>demo_request\<close>, which carries the caller's key under
  \<^verbatim>\<open>Authorization\<close>, a \<^verbatim>\<open>host\<close>, a two-valued \<^verbatim>\<open>accept\<close> and \<^verbatim>\<open>x-trace\<close>.\<close>

theorem forwarded_headers_witness:
  "\<exists>u. snd (snd (proxyHandler demo_ctx demo_registry (demo_world 1400 demo_grant)
                     (demo_db [demo_row ''oura'' ''daniel'']) demo_request)) = [UpstreamCall u]
      \<and> map_of (up_headers u) ''authorization'' = Some ''Bearer a1''
      \<and> map_of (up_headers u) ''Authorization'' = None
      \<and> map_of (up_headers u) ''host'' = None
      \<and> map_of (up_headers u) ''accept'' = Some ''text/plain, application/json''
      \<and> map_of (up_headers u) ''x-trace'' = Some ''t1''"
proof -
  let ?W = "demo_world 1400 demo_grant"
  let ?d = "demo_db [demo_row ''oura'' ''daniel'']"
  let ?u = "\<lparr>up_url = ''https://api.ouraring.com/v2/sleep'',
                      up_query = [(''day'', ''2024-01-01'')], up_method = ''GET'',
                      up_headers = [(''accept'', ''text/plain, application/json''), (''x-trace'', ''t1''),
                                    (''authorization'', ''Bearer a1'')],
                      up_body = None\<rparr>"
  have dist: "distinct (map fst (req_headers demo_request))"
    by (simp add: demo_request_def)
  have mem: "UpstreamCall ?u \<in> set [UpstreamCall ?u]" by simp
  have dl: "loadToken demo_ctx ?d (param_provider demo_request) (query_account demo_request)
              = Inr (Some demo_token, ''daniel'')"
    using demo_loadToken by (simp add: demo_request_def)
  have s: "\<not> shouldRefresh demo_token (now_handler ?W)"
    by (simp add: shouldRefresh_def demo_token_def demo_world_def truthy_def)
  from forwarded_headers[OF dist demo_proxy_run mem]
  obtain cfg tok acct a where
      r: "demo_registry (param_provider demo_request) = Some cfg"
    and l: "loadToken demo_ctx ?d (param_provider demo_request) (query_account demo_request)
            = Inr (Some tok, acct)"
    and c: "if shouldRefresh tok (now_handler ?W)
            then (\<exists>ea. refreshAccessToken ?W
                          (RefreshGrant (token_url cfg) (refreshToken tok) (client_id cfg)
                             (client_secret cfg)) = Some (a, ea))
            else accessToken tok = Some a"
    and m: "\<forall>k. map_of (up_headers ?u) k =
                  (if k = ''authorization'' then Some (''Bearer '' @ a)
                   else if toLowerCase k \<in> HOP_BY_HOP_HEADERS then None
                   else inbound (req_headers demo_request) k)"
    by (elim exE conjE)
  have tk: "tok = demo_token" using l dl by simp
  have a: "a = ''a1''" using c s unfolding tk by (simp add: demo_token_def)
  have low: "toLowerCase ''Authorization'' \<in> HOP_BY_HOP_HEADERS"
    "toLowerCase ''host'' \<in> HOP_BY_HOP_HEADERS"
    "toLowerCase ''accept'' \<notin> HOP_BY_HOP_HEADERS"
    "toLowerCase ''x-trace'' \<notin> HOP_BY_HOP_HEADERS"
    by (simp_all add: toLowerCase_def lower_char_def HOP_BY_HOP_HEADERS_def char_of_eq_iff)
  have inb: "inbound (req_headers demo_request) ''accept'' = Some ''text/plain, application/json''"
    "inbound (req_headers demo_request) ''x-trace'' = Some ''t1''"
    by (simp_all add: inbound_def demo_request_def)
  have r1: "map_of (up_headers ?u) ''authorization'' = Some ''Bearer a1''"
    using m[THEN spec, of "''authorization''"] a by simp
  have r2: "map_of (up_headers ?u) ''Authorization'' = None"
    using m[THEN spec, of "''Authorization''"] low(1) by simp
  have r3: "map_of (up_headers ?u) ''host'' = None"
    using m[THEN spec, of "''host''"] low(2) by simp
  have r4: "map_of (up_headers ?u) ''accept'' = Some ''text/plain, application/json''"
    using m[THEN spec, of "''accept''"] low(3) inb(1) by simp
  have r5: "map_of (up_headers ?u) ''x-trace'' = Some ''t1''"
    using m[THEN spec, of "''x-trace''"] low(4) inb(2) by simp
  have run: "snd (snd (proxyHandler demo_ctx demo_registry ?W ?d demo_request)) = [UpstreamCall ?u]"
    by (simp add: demo_proxy_run)
  show ?thesis
    by (intro exI[of _ ?u] conjI) (rule run, rule r1, rule r2, rule r3, rule r4, rule r5)
qed

section \<open>The format check of \<^verbatim>\<open>decrypt\<close>\<close>

lemma split_nonempty: "split sep xs \<noteq> []"
  by (induction xs) (auto split: list.splits)

text \<open>
  Claim C8 says that \<^verbatim>\<open>decrypt\<close> reports the format error for every input that is not
  exactly two non-empty hex segments. The check is
  \<^verbatim>\<open>const [ivHex, dataHex] = stored.split(':'); if (!ivHex || !dataHex)\<close>: it looks at the
  first two segments only and only at whether they are empty. An input of three hex
  segments and an input of two segments that are not hex both pass it and fail later,
  inside the cipher.
\<close>

theorem decrypt_format_error_counterexample:
  "split (of_char CHR '':'') (js ''ab:cd:ef'') = [js ''ab'', js ''cd'', js ''ef'']
   \<and> decrypt demo_ctx (js ''ab:cd:ef'') = Inl CipherError
   \<and> split (of_char CHR '':'') (js ''zz:yy'') = [js ''zz'', js ''yy'']
   \<and> decrypt demo_ctx (js ''zz:yy'') = Inl CipherError"
proof -
  have s1: "split (of_char CHR '':'') (js ''ab:cd:ef'') = [js ''ab'', js ''cd'', js ''ef'']"
    by (simp add: js_def)
  have s2: "split (of_char CHR '':'') (js ''zz:yy'') = [js ''zz'', js ''yy'']"
    by (simp add: js_def)
  have d1: "decrypt demo_ctx (js ''ab:cd:ef'') = Inl CipherError"
    unfolding decrypt_def demo_getKey s1
    by (simp add: Let_def nth_opt_def truthy_def js_def unhex_def subarray_def clamp_index_def
          TAG_BYTES_def demo_ctx_def demo_tag_def)
  have d2: "decrypt demo_ctx (js ''zz:yy'') = Inl CipherError"
    unfolding decrypt_def demo_getKey s2
    by (simp add: Let_def nth_opt_def truthy_def js_def unhex_def subarray_def clamp_index_def
          TAG_BYTES_def demo_ctx_def demo_tag_def)
  show ?thesis using s1 s2 d1 d2 by (intro conjI)
qed

text \<open>
  Claim C8, amended. With a well-formed key, \<^verbatim>\<open>decrypt\<close> fails with the format error
  exactly for the inputs whose split at \<^verbatim>\<open>:\<close> has no second segment, or an empty first
  segment, or an empty second segment. (With a missing or ill-formed key it fails with
  the configuration error before it looks at the input.)
\<close>

theorem decrypt_format_error:
  "decrypt K stored = Inl FormatError \<longleftrightarrow>
     \<not> isl (getKey K)
     \<and> (case split (of_char CHR '':'') stored of
          [] \<Rightarrow> True
        | [ivHex] \<Rightarrow> True
        | ivHex # dataHex # others \<Rightarrow> ivHex = [] \<or> dataHex = [])"
proof (cases "getKey K")
  case (Inl e)
  then have "e = ConfigError" by (auto simp: getKey_def split: option.splits if_splits)
  then show ?thesis using Inl by (simp add: decrypt_def)
next
  case (Inr key)
  show ?thesis
  proof (cases "split (of_char CHR '':'') stored")
    case Nil
    then show ?thesis using split_nonempty[of "of_char CHR '':''" stored] by simp
  next
    case (Cons ivHex rest)
    then show ?thesis using Inr
      by (cases rest)
         (auto simp: decrypt_def Let_def nth_opt_def truthy_def split: option.splits)
  qed
qed

text \<open>No colon; empty first segment; empty second segment, at the end or before a third
  segment; and three non-empty segments, which pass.\<close>

theorem decrypt_format_error_witness:
  "decrypt demo_ctx (js ''ab'') = Inl FormatError
   \<and> decrypt demo_ctx (js '':ab'') = Inl FormatError
   \<and> decrypt demo_ctx (js ''ab:'') = Inl FormatError
   \<and> decrypt demo_ctx (js ''ab::cd'') = Inl FormatError
   \<and> decrypt demo_ctx (js ''ab:cd:ef'') \<noteq> Inl FormatError"
  using decrypt_format_error[of demo_ctx "js ''ab''"] decrypt_format_error[of demo_ctx "js '':ab''"]
    decrypt_format_error[of demo_ctx "js ''ab:''"] decrypt_format_error[of demo_ctx "js ''ab::cd''"]
    decrypt_format_error[of demo_ctx "js ''ab:cd:ef''"]
  by (simp add: demo_getKey js_def)

section \<open>The cipher round trip\<close>

subsection \<open>UTF-8\<close>

lemma unat_byte: "n < 256 \<Longrightarrow> unat (of_nat n :: 8 word) = n"
  by (simp add: unat_of_nat)

lemma unat_unit: "n < 65536 \<Longrightarrow> unat (of_nat n :: 16 word) = n"
  by (simp add: unat_of_nat)

lemma dec1: "n < 128 \<Longrightarrow> utf8_decode (of_nat n # rest) = of_nat n # utf8_decode rest"
  by (simp add: unat_byte utf8_decode.simps)

lemma dec2:
  assumes "194 \<le> b0" "b0 \<le> 223" "128 \<le> b1" "b1 \<le> 191"
  shows "utf8_decode (of_nat b0 # of_nat b1 # rest)
           = of_nat ((b0 - 192) * 64 + (b1 - 128)) # utf8_decode rest"
proof -
  have u: "unat (of_nat b0 :: 8 word) = b0" "unat (of_nat b1 :: 8 word) = b1"
    using assms by (simp_all add: unat_byte)
  show ?thesis using assms by (simp add: u is_cont_def utf8_decode.simps)
qed

lemma dec3:
  assumes "224 \<le> b0" "b0 \<le> 239" "128 \<le> b1" "b1 \<le> 191"
    and "b0 = 224 \<longrightarrow> 160 \<le> b1" "b0 = 237 \<longrightarrow> b1 \<le> 159"
    and "128 \<le> b2" "b2 \<le> 191"
  shows "utf8_decode (of_nat b0 # of_nat b1 # of_nat b2 # rest)
           = of_nat ((b0 - 224) * 4096 + (b1 - 128) * 64 + (b2 - 128)) # utf8_decode rest"
proof -
  have u: "unat (of_nat b0 :: 8 word) = b0" "unat (of_nat b1 :: 8 word) = b1"
    "unat (of_nat b2 :: 8 word) = b2"
    using assms by (simp_all add: unat_byte)
  have s: "second_ok b0 (of_nat b1)"
    using assms by (simp add: second_ok_def is_cont_def u)
  show ?thesis using assms s by (simp add: u is_cont_def utf8_decode.simps)
qed

lemma dec4:
  assumes "240 \<le> b0" "b0 \<le> 244" "128 \<le> b1" "b1 \<le> 191"
    and "b0 = 240 \<longrightarrow> 144 \<le> b1" "b0 = 244 \<longrightarrow> b1 \<le> 143"
    and "128 \<le> b2" "b2 \<le> 191" "128 \<le> b3" "b3 \<le> 191"
  shows "utf8_decode (of_nat b0 # of_nat b1 # of_nat b2 # of_nat b3 # rest)
           = units_of_cp ((b0 - 240) * 262144 + (b1 - 128) * 4096 + (b2 - 128) * 64 + (b3 - 128))
             @ utf8_decode rest"
proof -
  have u: "unat (of_nat b0 :: 8 word) = b0" "unat (of_nat b1 :: 8 word) = b1"
    "unat (of_nat b2 :: 8 word) = b2" "unat (of_nat b3 :: 8 word) = b3"
    using assms by (simp_all add: unat_byte)
  have s: "second_ok b0 (of_nat b1)"
    using assms by (simp add: second_ok_def is_cont_def u)
  show ?thesis using assms s by (simp add: u is_cont_def utf8_decode.simps)
qed

text \<open>Quotients and remainders by 64, 4096 and 262144, taken apart by hand.\<close>

lemma d4096: "(n::nat) div 4096 = (n div 64) div 64"
  by (simp add: div_mult2_eq)

lemma d262144: "(n::nat) div 262144 = ((n div 64) div 64) div 64"
  by (simp add: div_mult2_eq)

lemma recompose2: "((x::nat) div 64) * 64 + x mod 64 = x"
  by simp

lemma lin64: "(a::nat) * 4096 + b * 64 + r = 64 * (a * 64 + b) + r"
  by simp

lemma lin4096: "(a::nat) * 262144 + b * 4096 + r = 4096 * (a * 64 + b) + r"
  by simp

lemma recompose3: "((n::nat) div 4096) * 4096 + ((n div 64) mod 64) * 64 + (n mod 64) = n"
proof -
  have "((n div 64) div 64) * 4096 + ((n div 64) mod 64) * 64 + n mod 64
        = 64 * (((n div 64) div 64) * 64 + (n div 64) mod 64) + n mod 64"
    by (rule lin64)
  also have "\<dots> = 64 * (n div 64) + n mod 64"
    by (simp only: recompose2)
  also have "\<dots> = n" by simp
  finally show ?thesis unfolding d4096 .
qed

lemma recompose4:
  "((c::nat) div 262144) * 262144 + ((c div 4096) mod 64) * 4096 + ((c div 64) mod 64) * 64 + (c mod 64) = c"
proof -
  have y: "c div 262144 = (c div 4096) div 64" by (simp add: div_mult2_eq)
  have "((c div 4096) div 64) * 262144 + ((c div 4096) mod 64) * 4096
          + (((c div 64) mod 64) * 64 + c mod 64)
        = 4096 * (((c div 4096) div 64) * 64 + (c div 4096) mod 64)
          + (((c div 64) mod 64) * 64 + c mod 64)"
    by (rule lin4096)
  also have "\<dots> = 4096 * (c div 4096) + (((c div 64) mod 64) * 64 + c mod 64)"
    by (simp only: recompose2)
  also have "\<dots> = (c div 4096) * 4096 + ((c div 64) mod 64) * 64 + c mod 64"
    by (simp only: mult.commute add.assoc)
  also have "\<dots> = c" by (rule recompose3)
  finally show ?thesis unfolding y by (simp only: add.assoc)
qed

lemma lead3_hi: "(n::nat) < 65536 \<Longrightarrow> n div 4096 < 16"
  by (simp add: less_mult_imp_div_less)

lemma second3_E0:
  assumes "2048 \<le> (n::nat)" "n div 4096 = 0"
  shows "32 \<le> (n div 64) mod 64"
proof -
  have "n < 4096" using assms(2) by (simp add: div_eq_0_iff)
  then have "n div 64 < 64" by (simp add: less_mult_imp_div_less)
  moreover have "2048 div 64 \<le> n div 64" using assms(1) by (rule div_le_mono)
  ultimately show ?thesis by simp
qed

lemma mod_window: "a * 64 \<le> (x::nat) \<Longrightarrow> x < a * 64 + k \<Longrightarrow> k \<le> 64 \<Longrightarrow> x mod 64 < k"
proof -
  assume a: "a * 64 \<le> x" "x < a * 64 + k" "k \<le> 64"
  define y where "y = x - a * 64"
  have y: "x = a * 64 + y" "y < k" using a(1,2) by (simp_all add: y_def)
  then have "x mod 64 = y" using a(3) by simp
  then show ?thesis using y by simp
qed

lemma second3_ED:
  assumes "(n::nat) < 55296" "n div 4096 = 13"
  shows "(n div 64) mod 64 < 32"
proof -
  have "n div 4096 * 4096 \<le> n" by simp
  then have "13 * 4096 \<le> n" using assms(2) by simp
  then have "(13 * 4096) div 64 \<le> n div 64" by (rule div_le_mono)
  then have lo: "13 * 64 \<le> n div 64" by simp
  have hi: "n div 64 < 13 * 64 + 32" using assms(1) by (simp add: less_mult_imp_div_less)
  show ?thesis using mod_window[OF lo hi] by simp
qed

lemma lead4_hi: "(c::nat) \<le> 1114111 \<Longrightarrow> c div 262144 \<le> 4"
proof -
  assume "c \<le> 1114111"
  then have "c < 5 * 262144" by simp
  then have "c div 262144 < 5" by (rule less_mult_imp_div_less)
  then show ?thesis by simp
qed

lemma second4_F0:
  assumes "65536 \<le> (c::nat)" "c div 262144 = 0"
  shows "16 \<le> (c div 4096) mod 64"
proof -
  have "c < 262144" using assms(2) by (simp add: div_eq_0_iff)
  then have "c div 4096 < 64" by (simp add: less_mult_imp_div_less)
  moreover have "65536 div 4096 \<le> c div 4096" using assms(1) by (rule div_le_mono)
  ultimately show ?thesis by simp
qed

lemma second4_F4:
  assumes "(c::nat) \<le> 1114111" "c div 262144 = 4"
  shows "(c div 4096) mod 64 < 16"
proof -
  have "c div 262144 * 262144 \<le> c" by simp
  then have "4 * 262144 \<le> c" using assms(2) by simp
  then have "(4 * 262144) div 4096 \<le> c div 4096" by (rule div_le_mono)
  then have lo: "4 * 64 \<le> c div 4096" by simp
  have "c < 272 * 4096" using assms(1) by simp
  then have "c div 4096 < 272" by (rule less_mult_imp_div_less)
  then have hi: "c div 4096 < 4 * 64 + 16" by simp
  show ?thesis using mod_window[OF lo hi] by simp
qed

lemma pair_div: "b < 1024 \<Longrightarrow> ((a::nat) * 1024 + b) div 1024 = a" by simp
lemma pair_mod: "b < 1024 \<Longrightarrow> ((a::nat) * 1024 + b) mod 1024 = b" by simp

text \<open>Decoding undoes the encoding of one code point: of a code unit that is not a
  surrogate, and of a surrogate pair.\<close>

lemma enc_bmp:
  assumes "n < 65536" "\<not> (55296 \<le> n \<and> n \<le> 57343)"
  shows "utf8_decode (utf8_of_cp n @ rest) = of_nat n # utf8_decode rest"
proof -
  consider "n < 128" | "128 \<le> n" "n < 2048" | "2048 \<le> n" by linarith
  then show ?thesis
  proof cases
    case 1
    then show ?thesis by (simp add: utf8_of_cp_def dec1)
  next
    case 2
    have "128 div 64 \<le> n div 64" using 2(1) by (rule div_le_mono)
    moreover have "n div 64 < 32" using 2(2) by (simp add: less_mult_imp_div_less)
    ultimately have r: "194 \<le> 192 + n div 64" "192 + n div 64 \<le> 223" "128 \<le> 128 + n mod 64"
      "128 + n mod 64 \<le> 191"
      by simp_all
    have v: "(192 + n div 64 - 192) * 64 + (128 + n mod 64 - 128) = n" by simp
    have "utf8_of_cp n = [of_nat (192 + n div 64), of_nat (128 + n mod 64)]"
      using 2 by (simp add: utf8_of_cp_def)
    then show ?thesis using dec2[OF r, of rest] unfolding v by simp
  next
    case 3
    let ?b0 = "224 + n div 4096" and ?b1 = "128 + (n div 64) mod 64" and ?b2 = "128 + n mod 64"
    have q: "n div 4096 < 16" using assms(1) by (rule lead3_hi)
    have e0: "?b0 = 224 \<longrightarrow> 160 \<le> ?b1" using second3_E0[OF 3] by simp
    have "n < 55296" if "n div 4096 = 13"
    proof -
      have "n = n div 4096 * 4096 + n mod 4096" by simp
      then have "n = 13 * 4096 + n mod 4096" using that by simp
      moreover have "n mod 4096 < 4096" by simp
      ultimately have "n < 14 * 4096" by linarith
      then show ?thesis using assms(2) by simp
    qed
    then have ed: "?b0 = 237 \<longrightarrow> ?b1 \<le> 159" using second3_ED[of n] by fastforce
    have r: "224 \<le> ?b0" "?b0 \<le> 239" "128 \<le> ?b1" "?b1 \<le> 191"
      using q by simp_all
    have r2: "128 \<le> ?b2" "?b2 \<le> 191" by simp_all
    have v: "(?b0 - 224) * 4096 + (?b1 - 128) * 64 + (?b2 - 128) = n"
      using recompose3[of n] by simp
    have "utf8_of_cp n = [of_nat ?b0, of_nat ?b1, of_nat ?b2]"
      using 3 assms(1) by (simp add: utf8_of_cp_def)
    then show ?thesis using dec3[OF r e0 ed r2, of rest] unfolding v by simp
  qed
qed

lemma enc_pair:
  assumes "55296 \<le> h" "h \<le> 56319" "56320 \<le> l" "l \<le> 57343"
  shows "utf8_decode (utf8_of_cp (65536 + (h - 55296) * 1024 + (l - 56320)) @ rest)
           = of_nat h # of_nat l # utf8_decode rest"
proof -
  define a where "a = h - 55296"
  define b where "b = l - 56320"
  define c where "c = 65536 + a * 1024 + b"
  have ab: "a < 1024" "b < 1024" "h = 55296 + a" "l = 56320 + b"
    using assms by (simp_all add: a_def b_def)
  have "a * 1024 \<le> 1023 * 1024" using ab(1) by simp
  then have c: "65536 \<le> c" "c \<le> 1114111" using ab(2) by (simp_all add: c_def)
  let ?b0 = "240 + c div 262144" and ?b1 = "128 + (c div 4096) mod 64"
    and ?b2 = "128 + (c div 64) mod 64" and ?b3 = "128 + c mod 64"
  have q: "c div 262144 \<le> 4" using c(2) by (rule lead4_hi)
  have f0: "?b0 = 240 \<longrightarrow> 144 \<le> ?b1" using second4_F0[OF c(1)] by simp
  have f4: "?b0 = 244 \<longrightarrow> ?b1 \<le> 143" using second4_F4[OF c(2)] by fastforce
  have r: "240 \<le> ?b0" "?b0 \<le> 244" "128 \<le> ?b1" "?b1 \<le> 191"
    using q by simp_all
  have r2: "128 \<le> ?b2" "?b2 \<le> 191" "128 \<le> ?b3" "?b3 \<le> 191" by simp_all
  have v: "(?b0 - 240) * 262144 + (?b1 - 128) * 4096 + (?b2 - 128) * 64 + (?b3 - 128) = c"
    using recompose4[of c] by simp
  have cm: "c - 65536 = a * 1024 + b" by (simp add: c_def)
  have hl: "55296 + (c - 65536) div 1024 = h" "56320 + (c - 65536) mod 1024 = l"
    unfolding cm using ab by (simp_all add: pair_div pair_mod)
  have "utf8_of_cp c = [of_nat ?b0, of_nat ?b1, of_nat ?b2, of_nat ?b3]"
    using c(1) by (simp add: utf8_of_cp_def)
  then have "utf8_decode (utf8_of_cp c @ rest) = units_of_cp c @ utf8_decode rest"
    using dec4[OF r f0 f4 r2, of rest] unfolding v by simp
  moreover have "units_of_cp c = [of_nat h, of_nat l]"
    using c(1) hl by (simp add: units_of_cp_def)
  ultimately show ?thesis unfolding c_def a_def b_def by simp
qed

lemma utf8_roundtrip: "well_formed p \<Longrightarrow> utf8_decode (utf8_encode p) = p"
proof (induction p rule: utf8_encode.induct)
  case 1
  then show ?case by simp
next
  case (2 u us)
  show ?case
  proof (cases "is_high u")
    case True
    then obtain v rest where us: "us = v # rest" and low: "is_low v" and wf: "well_formed rest"
      using "2.prems" by (cases us) auto
    have ih: "utf8_decode (utf8_encode rest) = rest"
      using "2.IH"(1)[OF True us low wf] .
    have "utf8_decode (utf8_of_cp (65536 + (unat u - 55296) * 1024 + (unat v - 56320))
             @ utf8_encode rest) = of_nat (unat u) # of_nat (unat v) # utf8_decode (utf8_encode rest)"
      using True low by (intro enc_pair) (simp_all add: is_high_def is_low_def)
    then show ?thesis using True low us ih by simp
  next
    case False
    then have nl: "\<not> is_low u" and wf: "well_formed us" using "2.prems" by auto
    have ih: "utf8_decode (utf8_encode us) = us"
      using "2.IH"(4)[OF False nl wf] .
    have lt: "unat u < 65536" using unsigned_less[of u, where ?'a=nat] by simp
    have "utf8_decode (utf8_of_cp (unat u) @ utf8_encode us)
            = of_nat (unat u) # utf8_decode (utf8_encode us)"
      using False nl lt by (intro enc_bmp) (auto simp: is_high_def is_low_def)
    then show ?thesis using False nl ih by simp
  qed
qed

subsection \<open>Hex, the separator and the tag\<close>

lemma unat_hex_digit:
  assumes "n < 16"
  shows "unat (hex_digit n) = (if n < 10 then 48 + n else 87 + n)"
proof -
  have a: "unat (of_nat (48 + n) :: 16 word) = 48 + n" using assms by (intro unat_unit) simp
  have b: "unat (of_nat (87 + n) :: 16 word) = 87 + n" using assms by (intro unat_unit) simp
  show ?thesis unfolding hex_digit_def using a b by (simp only: if_distrib[of unat] if_cancel split: if_splits)
qed

lemma unhex_hex_digit: "n < 16 \<Longrightarrow> unhex (hex_digit n) = Some n"
  by (simp add: unhex_def unat_hex_digit)

lemma hex_digit_not_colon: "n < 16 \<Longrightarrow> hex_digit n \<noteq> of_char CHR '':''"
proof
  assume n: "n < 16" and e: "hex_digit n = of_char CHR '':''"
  have "unat (hex_digit n) = unat (of_char CHR '':'' :: 16 word)" using e by simp
  then show False using n by (simp add: unat_hex_digit split: if_splits)
qed

lemma nibbles: "unat (b :: 8 word) div 16 < 16" "unat b mod 16 < 16"
proof -
  have "unat b < 16 * 16" using unsigned_less[of b, where ?'a=nat] by simp
  then show "unat b div 16 < 16" by (rule less_mult_imp_div_less)
  show "unat b mod 16 < 16" by simp
qed

lemma toString_hex_Cons:
  "toString_hex (b # bs) = hex_digit (unat b div 16) # hex_digit (unat b mod 16) # toString_hex bs"
  by (simp add: toString_hex_def)

lemma from_hex_toString_hex: "from_hex (toString_hex bs) = bs"
proof (induction bs)
  case Nil
  then show ?case by (simp add: toString_hex_def)
next
  case (Cons b bs)
  have "16 * (unat b div 16) + unat b mod 16 = unat b" by simp
  then show ?case
    using Cons by (simp add: toString_hex_Cons unhex_hex_digit nibbles)
qed

lemma colon_notin_hex: "of_char CHR '':'' \<notin> set (toString_hex bs)"
proof (induction bs)
  case Nil
  then show ?case by (simp add: toString_hex_def)
next
  case (Cons b bs)
  then show ?case
    using hex_digit_not_colon[OF nibbles(1), of b] hex_digit_not_colon[OF nibbles(2), of b]
    by (auto simp: toString_hex_Cons)
qed

lemma toString_hex_eq_Nil: "toString_hex bs = [] \<longleftrightarrow> bs = []"
  by (cases bs) (simp_all add: toString_hex_def)

lemma split_no_sep: "sep \<notin> set ys \<Longrightarrow> split sep ys = [ys]"
  by (induction ys) auto

lemma split_at_sep: "sep \<notin> set xs \<Longrightarrow> split sep (xs @ sep # ys) = xs # split sep ys"
  by (induction xs) auto

lemma subarray_tail:
  assumes "length tag = TAG_BYTES"
  shows "subarray (ct @ tag) (int (length ct) + int (length tag) - int TAG_BYTES)
           (int (length ct) + int (length tag)) = tag"
    and "subarray (ct @ tag) 0 (int (length ct) + int (length tag) - int TAG_BYTES) = ct"
  using assms by (simp_all add: subarray_def clamp_index_def)

text \<open>
  Claim C4 says that \<^verbatim>\<open>decrypt(encrypt(p)) == p\<close> for every string \<open>p\<close>. A string that
  holds a surrogate outside a pair does not come back: \<^verbatim>\<open>cipher.update(p, 'utf8')\<close>
  writes U+FFFD for it, so the string made of the single high surrogate D800 is
  encrypted as the bytes EF BF BD and decrypts to the string made of FFFD.
\<close>

theorem roundtrip_lone_surrogate_counterexample:
  "encrypt demo_ctx demo_nonce [0xD800]
     = Inr (js ''0102030405060708090a0b0c:efbfbd00000000000000000000000000000000'')
   \<and> decrypt demo_ctx (js ''0102030405060708090a0b0c:efbfbd00000000000000000000000000000000'')
     = Inr [0xFFFD]
   \<and> [0xFFFD] \<noteq> [0xD800 :: 16 word]"
proof -
  have p: "utf8_encode [0xD800] = [0xEF, 0xBF, 0xBD]"
    by (simp add: is_high_def is_low_def utf8_of_cp_def)
  have h1: "toString_hex demo_nonce = js ''0102030405060708090a0b0c''"
    by (simp add: toString_hex_def hex_digit_def js_def demo_nonce_def)
  have h2: "toString_hex (0xEF # 0xBF # 0xBD # demo_tag) = js ''efbfbd00000000000000000000000000000000''"
    by (simp add: toString_hex_def hex_digit_def js_def demo_tag_def)
  have "encrypt demo_ctx demo_nonce [0xD800]
          = Inr (toString_hex demo_nonce @ js '':'' @ toString_hex (0xEF # 0xBF # 0xBD # demo_tag))"
    unfolding encrypt_def demo_getKey p by (simp add: demo_ctx_def demo_nonce_def)
  then have e: "encrypt demo_ctx demo_nonce [0xD800]
     = Inr (js ''0102030405060708090a0b0c:efbfbd00000000000000000000000000000000'')"
    unfolding h1 h2 by (simp add: js_def)
  have d: "decrypt demo_ctx (js ''0102030405060708090a0b0c:efbfbd00000000000000000000000000000000'')
     = Inr [0xFFFD]"
    unfolding decrypt_def demo_getKey
    apply (simp add: js_def Let_def nth_opt_def truthy_def)
    apply (simp add: unhex_def subarray_def clamp_index_def TAG_BYTES_def demo_ctx_def demo_tag_def
             utf8_decode.simps second_ok_def is_cont_def)
    done
  show ?thesis using e d by simp
qed

text \<open>
  Claim C4, amended. For every well-formed string \<open>p\<close> (no surrogate outside a pair; the
  empty string, any Unicode text and any length included) and every 12-byte nonce, with
  the same key on both sides, \<^verbatim>\<open>encrypt\<close> returns an envelope and \<^verbatim>\<open>decrypt\<close> of that
  envelope returns \<open>p\<close>. What is assumed of the platform's AES-256-GCM is what it is for:
  under this key and nonce it seals the encoded text with a 16-byte tag, and opens what
  it sealed.
\<close>

theorem decrypt_encrypt_roundtrip:
  assumes "well_formed p" and "getKey K = Inr key" and "length iv = IV_BYTES"
    and "gcm_seal K key iv (utf8_encode p) = Some (ct, tag)" and "length tag = TAG_BYTES"
    and "gcm_open K key iv ct tag = Some (utf8_encode p)"
  shows "\<exists>e. encrypt K iv p = Inr e \<and> decrypt K e = Inr p"
proof -
  let ?e = "toString_hex iv @ js '':'' @ toString_hex (ct @ tag)"
  have enc: "encrypt K iv p = Inr ?e"
    using assms(2,4) by (simp add: encrypt_def)
  have colon: "js '':'' = [of_char CHR '':'']" by (simp add: js_def)
  have sp: "split (of_char CHR '':'') ?e = [toString_hex iv, toString_hex (ct @ tag)]"
    unfolding colon using split_at_sep[OF colon_notin_hex] split_no_sep[OF colon_notin_hex]
    by simp
  have ne: "toString_hex iv \<noteq> []" "toString_hex (ct @ tag) \<noteq> []"
    using assms(3,5) by (auto simp: toString_hex_eq_Nil IV_BYTES_def TAG_BYTES_def)
  have "decrypt K ?e = Inr (utf8_decode (utf8_encode p))"
    unfolding decrypt_def sp using assms(2,6) ne
    by (simp add: Let_def nth_opt_def truthy_def from_hex_toString_hex
          subarray_tail[OF assms(5)])
  then have "decrypt K ?e = Inr p" using utf8_roundtrip[OF assms(1)] by simp
  then show ?thesis using enc by (intro exI[of _ ?e] conjI)
qed

text \<open>A string with a Latin-1 letter, a CJK character and an emoji (a surrogate
  pair).\<close>

theorem decrypt_encrypt_roundtrip_witness:
  "\<exists>e. encrypt demo_ctx demo_nonce [0xE9, 0x4F60, 0xD83D, 0xDD12] = Inr e
      \<and> decrypt demo_ctx e = Inr [0xE9, 0x4F60, 0xD83D, 0xDD12]"
proof -
  let ?p = "[0xE9, 0x4F60, 0xD83D, 0xDD12] :: jsstring"
  let ?key = "[0,0,0,0,0,0,0,0,0,0,0,0,0,0,0,0,0,0,0,0,0,0,0,0,0,0,0,0,0,0,0,0] :: bytes"
  have wf: "well_formed ?p" by (simp add: is_high_def is_low_def)
  have iv: "length demo_nonce = IV_BYTES" by (simp add: demo_nonce_def IV_BYTES_def)
  have seal: "gcm_seal demo_ctx ?key demo_nonce (utf8_encode ?p) = Some (utf8_encode ?p, demo_tag)"
    by (simp add: demo_ctx_def demo_nonce_def del: utf8_encode.simps)
  have tg: "length demo_tag = TAG_BYTES" by (simp add: demo_tag_def TAG_BYTES_def)
  have opn: "gcm_open demo_ctx ?key demo_nonce (utf8_encode ?p) demo_tag = Some (utf8_encode ?p)"
    by (simp add: demo_ctx_def demo_nonce_def del: utf8_encode.simps)
  show ?thesis
    by (rule decrypt_encrypt_roundtrip[OF wf demo_getKey iv seal tg opn])
qed

end
